theory Spec2Isabelle
  imports Main "HOL-Library.Word" "HOL-Library.Sublist"
begin

section \<open>Data shared by the modules\<close>

text \<open>
  Python \<open>str\<close> values supplied by the user (secrets, wordlist text) are sequences of
  Unicode code points, modelled as lists of naturals. Strings that are constants of the
  program (origin labels, messages, names of environment variables) are ASCII and are
  written as HOL strings.
\<close>

type_synonym pystr = "nat list"

text \<open>
  Exceptions. Only the distinction between \<open>pikepdf.PasswordError\<close>, the \<open>OSError\<close>
  family and every other \<open>Exception\<close> matters to the control flow; the payload is
  \<open>str(e)\<close>.
\<close>

datatype exc = PasswordError string | OSError string | OtherException string

fun exc_str :: "exc \<Rightarrow> string" where
  "exc_str (PasswordError m) = m"
| "exc_str (OSError m) = m"
| "exc_str (OtherException m) = m"

section \<open>passwords.py\<close>

subsection \<open>Text handling of the standard library used by the wordlist reader\<close>

definition LF :: nat where "LF = 10"
definition CR :: nat where "CR = 13"
definition HASH :: nat where "HASH = 35"
definition BOM :: nat where "BOM = 65279"

text \<open>
  \<open>str.isspace\<close> of one code point, as CPython decides it (the code points with
  bidirectional type WS, B or S, or category Zs).
\<close>

definition py_isspace :: "nat \<Rightarrow> bool" where
  "py_isspace c \<longleftrightarrow>
     (9 \<le> c \<and> c \<le> 13) \<or> (28 \<le> c \<and> c \<le> 32) \<or> c = 133 \<or> c = 160 \<or> c = 5760 \<or>
     (8192 \<le> c \<and> c \<le> 8202) \<or> c = 8232 \<or> c = 8233 \<or> c = 8239 \<or> c = 8287 \<or> c = 12288"

text \<open>\<open>s.lstrip()\<close> and \<open>s.strip()\<close> with no argument.\<close>

definition py_lstrip :: "pystr \<Rightarrow> pystr" where
  "py_lstrip s = dropWhile py_isspace s"

definition py_strip :: "pystr \<Rightarrow> pystr" where
  "py_strip s = rev (dropWhile py_isspace (rev (dropWhile py_isspace s)))"

text \<open>\<open>s.rstrip("\r\n")\<close>: drops the longest suffix made of CR and LF only.\<close>

definition rstrip_crlf :: "pystr \<Rightarrow> pystr" where
  "rstrip_crlf s = rev (dropWhile (\<lambda>c. c = CR \<or> c = LF) (rev s))"

text \<open>\<open>s.startswith("#")\<close>.\<close>

definition startswith_hash :: "pystr \<Rightarrow> bool" where
  "startswith_hash s = (case s of [] \<Rightarrow> False | c # _ \<Rightarrow> c = HASH)"

text \<open>
  The codec \<open>utf-8-sig\<close> drops one leading byte order mark; the argument is the text
  as UTF-8 decodes it.
\<close>

definition utf8_sig :: "pystr \<Rightarrow> pystr" where
  "utf8_sig s = (case s of [] \<Rightarrow> [] | c # cs \<Rightarrow> if c = BOM then cs else s)"

text \<open>
  A file opened in text mode with the default \<open>newline=None\<close> translates \<open>\r\n\<close> and
  a lone \<open>\r\<close> to \<open>\n\<close> on reading.
\<close>

fun universal_newlines :: "pystr \<Rightarrow> pystr" where
  "universal_newlines [] = []"
| "universal_newlines [c] = [if c = CR then LF else c]"
| "universal_newlines (c # d # ds) =
     (if c = CR \<and> d = LF then LF # universal_newlines ds
      else if c = CR then LF # universal_newlines (d # ds)
      else c # universal_newlines (d # ds))"

text \<open>
  Iterating over the file yields the lines, each with its terminating \<open>\n\<close>; a last line
  without terminator is yielded as it is. \<open>cur\<close> is the line read so far.
\<close>

fun read_lines :: "pystr \<Rightarrow> pystr \<Rightarrow> pystr list" where
  "read_lines cur [] = (if cur = [] then [] else [cur])"
| "read_lines cur (c # cs) =
     (if c = LF then (cur @ [LF]) # read_lines [] cs else read_lines (cur @ [c]) cs)"

definition file_lines :: "pystr \<Rightarrow> pystr list" where
  "file_lines decoded = read_lines [] (universal_newlines (utf8_sig decoded))"

subsection \<open>\<open>_iter_from_dictionary\<close>\<close>

text \<open>
  The loop body of \<open>_iter_from_dictionary\<close>. \<open>nfkc\<close> stands for
  \<open>unicodedata.normalize("NFKC", _)\<close> of the standard library, whose tables are not part
  of the repository: it is a parameter. The two \<open>continue\<close> statements are the two
  branches that yield nothing.
\<close>

fun dictionary_loop :: "(pystr \<Rightarrow> pystr) \<Rightarrow> pystr list \<Rightarrow> pystr list" where
  "dictionary_loop nfkc [] = []"
| "dictionary_loop nfkc (line # rest) =
     (let password = rstrip_crlf line;
          password = nfkc password
      in if py_strip password = [] then dictionary_loop nfkc rest
         else if startswith_hash (py_lstrip password) then dictionary_loop nfkc rest
         else password # dictionary_loop nfkc rest)"

definition iter_from_dictionary :: "(pystr \<Rightarrow> pystr) \<Rightarrow> pystr \<Rightarrow> pystr list" where
  "iter_from_dictionary nfkc decoded = dictionary_loop nfkc (file_lines decoded)"

subsection \<open>\<open>iter_passwords\<close>\<close>

text \<open>
  What \<open>dictionary_path\<close> refers to when \<open>iter_passwords\<close> runs: a path that does not
  exist, a path that exists but whose \<open>open\<close> raises (a directory, no permission), or a
  file with its UTF-8 decoded text. The argument itself is optional.
\<close>

datatype dict_file = Missing | Unreadable exc | Readable pystr

text \<open>
  The generator state: the set \<open>seen\<close> and the pairs yielded so far, in order.
\<close>

type_synonym candidate = "pystr \<times> string"
type_synonym gen_state = "pystr set \<times> candidate list"

text \<open>The dictionary loop of \<open>iter_passwords\<close>.\<close>

fun yield_dictionary :: "gen_state \<Rightarrow> pystr list \<Rightarrow> gen_state" where
  "yield_dictionary st [] = st"
| "yield_dictionary (seen, out) (password # rest) =
     (if password \<notin> seen
      then yield_dictionary (insert password seen, out @ [(password, ''dictionary'')]) rest
      else yield_dictionary (seen, out) rest)"

text \<open>
  \<open>iter_passwords\<close>. The result is the exception that ended the generator, if any, and
  the pairs it yielded. \<open>env\<close> is the optional mapping, as an association list; \<open>if env\<close>
  is false for \<open>None\<close> and for the empty mapping, \<open>if env_password\<close> is false for
  \<open>None\<close> and for the empty string.
\<close>

definition ENV_KEY :: string where
  "ENV_KEY = ''PDFMASSUNLOCK_PASSWORD''"

definition yield_single :: "pystr option \<Rightarrow> gen_state \<Rightarrow> gen_state" where
  "yield_single single st =
     (case single of
        None \<Rightarrow> st
      | Some s \<Rightarrow> if s \<notin> fst st then (insert s (fst st), snd st @ [(s, ''single'')]) else st)"

definition yield_environment :: "(string \<times> pystr) list option \<Rightarrow> gen_state \<Rightarrow> gen_state" where
  "yield_environment env st =
     (case env of
        None \<Rightarrow> st
      | Some m \<Rightarrow>
          if m = [] then st
          else (case map_of m ENV_KEY of
                  None \<Rightarrow> st
                | Some env_password \<Rightarrow>
                    if env_password \<noteq> [] \<and> env_password \<notin> fst st
                    then (insert env_password (fst st), snd st @ [(env_password, ''environment'')])
                    else st))"

definition yield_empty :: "bool \<Rightarrow> gen_state \<Rightarrow> gen_state" where
  "yield_empty try_empty st =
     (if try_empty \<and> [] \<notin> fst st then (insert [] (fst st), snd st @ [([], ''empty'')]) else st)"

definition iter_passwords ::
  "(pystr \<Rightarrow> pystr) \<Rightarrow> pystr option \<Rightarrow> dict_file option \<Rightarrow> (string \<times> pystr) list option \<Rightarrow> bool
   \<Rightarrow> exc option \<times> candidate list" where
  "iter_passwords nfkc single dictionary_path env try_empty =
     (let st1 = yield_single single ({}, [])
      in case dictionary_path of
           Some (Unreadable e) \<Rightarrow> (Some e, snd st1)
         | _ \<Rightarrow>
           (let st2 = (case dictionary_path of
                         Some (Readable decoded) \<Rightarrow>
                           yield_dictionary st1 (iter_from_dictionary nfkc decoded)
                       | _ \<Rightarrow> st1);
                st3 = yield_environment env st2;
                st4 = yield_empty try_empty st3
            in (None, snd st4)))"

section \<open>The filesystem\<close>

text \<open>
  A path is the list of its components below the anchor (the root or the working
  directory); \<open>pathlib\<close> does not interpret the components. The store holds, for every
  regular file, its bytes and its mode (whether the process may read it, and whether it
  may write it, which is what \<open>os.access(_, os.W_OK)\<close> answers), and for every directory
  whether it is writable. The process owns the entries, so it may change their times
  whatever their mode. Links are not modelled: two paths name the same file only when
  they are equal. The operations follow POSIX.
\<close>

type_synonym path = "string list"
type_synonym bytes = "8 word list"

datatype mode = Mode (can_read: bool) (can_write: bool)

abbreviation rw :: mode where
  "rw \<equiv> Mode True True"

record fs =
  files :: "path \<rightharpoonup> bytes \<times> mode"
  dirs :: "path \<rightharpoonup> bool"

text \<open>\<open>p.parent\<close>, \<open>p.name\<close>, \<open>p / name\<close> for a name of one component (or the empty
  name, which \<open>pathlib\<close> drops), and \<open>str(p)\<close>.\<close>

definition path_parent :: "path \<Rightarrow> path" where
  "path_parent p = butlast p"

definition path_name :: "path \<Rightarrow> string" where
  "path_name p = (if p = [] then [] else last p)"

definition joinpath :: "path \<Rightarrow> string \<Rightarrow> path" where
  "joinpath d n = (if n = [] then d else d @ [n])"

fun path_str :: "path \<Rightarrow> string" where
  "path_str [] = ''.''"
| "path_str [c] = c"
| "path_str (c # cs) = c @ ''/'' @ path_str cs"

text \<open>\<open>repr\<close> of a string without quotes or backslashes, and of a path.\<close>

definition py_repr :: "string \<Rightarrow> string" where
  "py_repr s = CHR 0x27 # s @ [CHR 0x27]"

definition path_repr :: "path \<Rightarrow> string" where
  "path_repr p = ''PosixPath('' @ py_repr (path_str p) @ '')''"

text \<open>\<open>str(e)\<close> of an \<open>OSError\<close> raised for a file name.\<close>

definition os_error :: "string \<Rightarrow> path \<Rightarrow> exc" where
  "os_error what p = OSError (what @ '': '' @ py_repr (path_str p))"

text \<open>\<open>p.with_name(n)\<close> raises \<open>ValueError\<close> when \<open>p\<close> has an empty name.\<close>

definition with_name :: "path \<Rightarrow> string \<Rightarrow> exc + path" where
  "with_name p n =
     (if path_name p = [] then Inl (OtherException (path_repr p @ '' has an empty name''))
      else Inr (path_parent p @ [n]))"

definition ENOENT :: string where "ENOENT = ''[Errno 2] No such file or directory''"
definition EACCES :: string where "EACCES = ''[Errno 13] Permission denied''"
definition EEXIST :: string where "EEXIST = ''[Errno 17] File exists''"
definition EISDIR :: string where "EISDIR = ''[Errno 21] Is a directory''"

definition path_exists :: "fs \<Rightarrow> path \<Rightarrow> bool" where
  "path_exists s p \<longleftrightarrow> files s p \<noteq> None \<or> dirs s p \<noteq> None"

definition is_dir :: "fs \<Rightarrow> path \<Rightarrow> bool" where
  "is_dir s p \<longleftrightarrow> dirs s p \<noteq> None"

text \<open>\<open>os.access(p, os.W_OK)\<close>.\<close>

definition access_w :: "fs \<Rightarrow> path \<Rightarrow> bool" where
  "access_w s p =
     (case dirs s p of
        Some w \<Rightarrow> w
      | None \<Rightarrow> (case files s p of Some (_, m) \<Rightarrow> can_write m | None \<Rightarrow> False))"

text \<open>\<open>d.mkdir(exist_ok=True)\<close>: an existing directory is accepted, an existing file is
  not; the parent is not created.\<close>

definition mkdir_exist_ok :: "fs \<Rightarrow> path \<Rightarrow> exc + fs" where
  "mkdir_exist_ok s d =
     (if is_dir s d then Inr s
      else if files s d \<noteq> None then Inl (os_error EEXIST d)
      else if \<not> is_dir s (path_parent d) then Inl (os_error ENOENT d)
      else if \<not> access_w s (path_parent d) then Inl (os_error EACCES d)
      else Inr (s\<lparr>dirs := (dirs s)(d \<mapsto> True)\<rparr>))"

text \<open>\<open>p.touch()\<close>: an existing entry only has its times updated, which its owner may
  always do; otherwise an empty file is created.\<close>

definition touch :: "fs \<Rightarrow> path \<Rightarrow> exc + fs" where
  "touch s p =
     (if path_exists s p then Inr s
      else if \<not> is_dir s (path_parent p) then Inl (os_error ENOENT p)
      else if \<not> access_w s (path_parent p) then Inl (os_error EACCES p)
      else Inr (s\<lparr>files := (files s)(p \<mapsto> ([], rw))\<rparr>))"

text \<open>\<open>p.unlink(missing_ok)\<close>.\<close>

definition unlink :: "bool \<Rightarrow> fs \<Rightarrow> path \<Rightarrow> exc + fs" where
  "unlink missing_ok s p =
     (if is_dir s p then Inl (os_error EISDIR p)
      else if files s p = None then (if missing_ok then Inr s else Inl (os_error ENOENT p))
      else if \<not> access_w s (path_parent p) then Inl (os_error EACCES p)
      else Inr (s\<lparr>files := (files s)(p := None)\<rparr>))"

text \<open>Writing to a file that is open for writing replaces its bytes.\<close>

definition write_open_file :: "fs \<Rightarrow> path \<Rightarrow> bytes \<Rightarrow> fs" where
  "write_open_file s p content =
     (case files s p of
        None \<Rightarrow> s
      | Some (_, m) \<Rightarrow> s\<lparr>files := (files s)(p \<mapsto> (content, m))\<rparr>)"

text \<open>
  \<open>shutil.copy2(src, dst)\<close>: a destination that is a directory receives the file
  under the source's name; copying a file onto itself raises \<open>SameFileError\<close>; the
  source must be readable; the bytes and the mode of the source replace those of the
  destination.
\<close>

definition copy2 :: "fs \<Rightarrow> path \<Rightarrow> path \<Rightarrow> exc + fs" where
  "copy2 s src dst =
     (let dst = (if is_dir s dst then joinpath dst (path_name src) else dst)
      in if src = dst \<and> path_exists s src
         then Inl (OSError (path_repr src @ '' and '' @ path_repr dst @ '' are the same file''))
         else (case files s src of
                 None \<Rightarrow> Inl (os_error (if is_dir s src then EISDIR else ENOENT) src)
               | Some entry \<Rightarrow>
                   if \<not> can_read (snd entry) then Inl (os_error EACCES src)
                   else if is_dir s dst then Inl (os_error EISDIR dst)
                   else if files s dst \<noteq> None \<and> \<not> access_w s dst then Inl (os_error EACCES dst)
                   else if files s dst = None \<and> \<not> is_dir s (path_parent dst)
                     then Inl (os_error ENOENT dst)
                   else if files s dst = None \<and> \<not> access_w s (path_parent dst)
                     then Inl (os_error EACCES dst)
                   else Inr (s\<lparr>files := (files s)(dst \<mapsto> entry)\<rparr>)))"

text \<open>\<open>os.replace(src, dst)\<close>: one atomic rename.\<close>

definition os_replace :: "fs \<Rightarrow> path \<Rightarrow> path \<Rightarrow> exc + fs" where
  "os_replace s src dst =
     (case files s src of
        None \<Rightarrow> Inl (os_error ENOENT src)
      | Some entry \<Rightarrow>
          if is_dir s dst then Inl (os_error EISDIR dst)
          else if \<not> access_w s (path_parent src) \<or> \<not> access_w s (path_parent dst)
            then Inl (os_error EACCES dst)
          else if src = dst then Inr s
          else Inr (s\<lparr>files := (files s)(dst \<mapsto> entry, src := None)\<rparr>))"

text \<open>
  \<open>tempfile.NamedTemporaryFile(mode="wb", dir=d, delete=False, suffix=".tmp")\<close>: the
  candidate names (the random names with prefix and suffix applied, a bounded supply)
  are tried in order; a name that exists is skipped, any other failure is raised, and the
  file is created empty with \<open>O_EXCL\<close>.
\<close>

fun mkstemp :: "fs \<Rightarrow> path \<Rightarrow> string list \<Rightarrow> exc + (path \<times> fs)" where
  "mkstemp s d [] = Inl (os_error (EEXIST @ '': No usable temporary file name found'') d)"
| "mkstemp s d (n # ns) =
     (let file = d @ [n]
      in if path_exists s file then mkstemp s d ns
         else if \<not> is_dir s d then Inl (os_error ENOENT file)
         else if \<not> access_w s d then Inl (os_error EACCES file)
         else Inr (file, s\<lparr>files := (files s)(file \<mapsto> ([], rw))\<rparr>))"

section \<open>io_utils.py\<close>

text \<open>
  An operation that can fail after it has changed the store returns the store with its
  result.
\<close>

definition ensure_backup :: "fs \<Rightarrow> path \<Rightarrow> string \<Rightarrow> (exc + path) \<times> fs" where
  "ensure_backup s src backup_dir_name =
     (let backup_dir = joinpath (path_parent src) backup_dir_name
      in case mkdir_exist_ok s backup_dir of
           Inl e \<Rightarrow> (Inl e, s)
         | Inr s1 \<Rightarrow> (Inr backup_dir, s1))"

definition validate_backup_path_no_side_effects :: "fs \<Rightarrow> path \<Rightarrow> string \<Rightarrow> exc + path" where
  "validate_backup_path_no_side_effects s src backup_dir_name =
     (let backup_dir = joinpath (path_parent src) backup_dir_name;
          backup_path = joinpath backup_dir (path_name src)
      in if path_exists s backup_dir
         then (if \<not> access_w s backup_dir
               then Inl (OSError (''Backup directory exists but is not writable: '' @ path_str backup_dir))
               else Inr backup_path)
         else (let parent_dir = path_parent src
               in if \<not> access_w s parent_dir
                  then Inl (OSError (''Parent directory is not writable: '' @ path_str parent_dir))
                  else Inr backup_path))"

text \<open>
  \<open>validate_backup_path\<close>: \<open>backup_path.stat()\<close> on an existing path has no effect and
  is left out; \<open>except OSError as e: raise e\<close> raises what it caught.
\<close>

definition validate_backup_path :: "fs \<Rightarrow> path \<Rightarrow> string \<Rightarrow> (exc + path) \<times> fs" where
  "validate_backup_path s src backup_dir_name =
     (case ensure_backup s src backup_dir_name of
        (Inl e, s1) \<Rightarrow> (Inl e, s1)
      | (Inr backup_dir, s1) \<Rightarrow>
          (let backup_path = joinpath backup_dir (path_name src)
           in case with_name backup_path (path_name backup_path @ ''.tmp_test'') of
                Inl e \<Rightarrow> (Inl e, s1)
              | Inr test_path \<Rightarrow>
                  (case touch s1 test_path of
                     Inl e \<Rightarrow> (Inl e, s1)
                   | Inr s2 \<Rightarrow>
                       (case unlink False s2 test_path of
                          Inl e \<Rightarrow> (Inl e, s2)
                        | Inr s3 \<Rightarrow> (Inr backup_path, s3)))))"

definition copy_backup :: "fs \<Rightarrow> path \<Rightarrow> string \<Rightarrow> (exc + path) \<times> fs" where
  "copy_backup s src backup_dir_name =
     (case ensure_backup s src backup_dir_name of
        (Inl e, s1) \<Rightarrow> (Inl e, s1)
      | (Inr backup_dir, s1) \<Rightarrow>
          (let backup_path = joinpath backup_dir (path_name src)
           in case copy2 s1 src backup_path of
                Inl e \<Rightarrow> (Inl e, s1)
              | Inr s2 \<Rightarrow> (Inr backup_path, s2)))"

text \<open>
  \<open>atomic_write\<close>. What lies outside the store is a parameter: the supply of temporary
  names, and what \<open>tmp_file.flush()\<close> and \<open>os.fsync\<close> raise, if anything. The body of the
  \<open>with\<close> statement is the producer: the bytes it wrote to the temporary file and the
  exception it raised, if any. The bare \<open>except\<close> unlinks the temporary file and raises
  again; the rename runs only when nothing was raised.
\<close>

record os_env =
  tmp_names :: "string list"
  flush_raises :: "exc option"
  fsync_raises :: "exc option"

type_synonym producer = "bytes \<times> exc option"

text \<open>The first exception of a sequence of steps, each of which may raise.\<close>

fun first_raised :: "exc option list \<Rightarrow> exc option" where
  "first_raised [] = None"
| "first_raised (None # steps) = first_raised steps"
| "first_raised (Some e # steps) = Some e"

definition atomic_write :: "os_env \<Rightarrow> fs \<Rightarrow> path \<Rightarrow> producer \<Rightarrow> exc option \<times> fs" where
  "atomic_write env s filepath body =
     (case mkstemp s (path_parent filepath) (tmp_names env) of
        Inl e \<Rightarrow> (Some e, s)
      | Inr (temp_path, s1) \<Rightarrow>
          (let s2 = write_open_file s1 temp_path (fst body)
           in case first_raised [snd body, flush_raises env, fsync_raises env] of
                Some e \<Rightarrow>
                  (case unlink True s2 temp_path of
                     Inl e' \<Rightarrow> (Some e', s2)
                   | Inr s3 \<Rightarrow> (Some e, s3))
              | None \<Rightarrow>
                  (case os_replace s2 temp_path filepath of
                     Inl e \<Rightarrow> (Some e, s2)
                   | Inr s3 \<Rightarrow> (None, s3))))"

section \<open>unlocker.py\<close>

datatype UnlockStatus = UNCHANGED | UNLOCKED | FAILED

record UnlockResult =
  file_path :: path
  status :: UnlockStatus
  error_message :: "string option"
  method_used :: "string option"

text \<open>
  The document library is an external collaborator and a parameter: what
  \<open>pikepdf.open\<close> makes of the bytes of a file and of an optional password (a document
  of type \<open>'d\<close>, or an exception), and what \<open>pdf.save(f)\<close> does (the bytes written to \<open>f\<close>
  and the exception raised, if any).
\<close>

datatype 'd opened = Opened 'd | Raises exc

record 'd pikepdf =
  parse :: "bytes \<Rightarrow> pystr option \<Rightarrow> 'd opened"
  save :: "'d \<Rightarrow> producer"

text \<open>
  The world of one run: the store, and the log of the calls of \<open>pikepdf.open\<close> (the path
  and the password given, \<open>None\<close> for the call without password). A path with no
  readable file behind it makes the open raise an \<open>OSError\<close>.
\<close>

record world =
  fsys :: fs
  open_log :: "(path \<times> pystr option) list"

definition pikepdf_open :: "'d pikepdf \<Rightarrow> world \<Rightarrow> path \<Rightarrow> pystr option \<Rightarrow> 'd opened \<times> world" where
  "pikepdf_open lib w filepath password =
     ((case files (fsys w) filepath of
         None \<Rightarrow> Raises (os_error (if is_dir (fsys w) filepath then EISDIR else ENOENT) filepath)
       | Some (content, m) \<Rightarrow>
           if can_read m then parse lib content password
           else Raises (os_error EACCES filepath)),
      w\<lparr>open_log := open_log w @ [(filepath, password)]\<rparr>)"

text \<open>
  \<open>is_pdf_encrypted\<close>. The result type keeps a place for an exception that leaves the
  function, as the caller's \<open>try\<close> expects one.
\<close>

definition is_pdf_encrypted :: "'d pikepdf \<Rightarrow> world \<Rightarrow> path \<Rightarrow> (exc + bool) \<times> world" where
  "is_pdf_encrypted lib w filepath =
     (case pikepdf_open lib w filepath None of
        (Opened _, w1) \<Rightarrow> (Inr False, w1)
      | (Raises (PasswordError _), w1) \<Rightarrow> (Inr True, w1)
      | (Raises _, w1) \<Rightarrow> (Inr True, w1))"

definition unchanged_result :: "path \<Rightarrow> UnlockResult" where
  "unchanged_result filepath =
     \<lparr>file_path = filepath, status = UNCHANGED, error_message = None,
      method_used = Some ''already_unlocked''\<rparr>"

definition unlocked_result :: "path \<Rightarrow> string \<Rightarrow> UnlockResult" where
  "unlocked_result filepath source =
     \<lparr>file_path = filepath, status = UNLOCKED, error_message = None, method_used = Some source\<rparr>"

definition failed_result :: "path \<Rightarrow> string \<Rightarrow> UnlockResult" where
  "failed_result filepath message =
     \<lparr>file_path = filepath, status = FAILED, error_message = Some message, method_used = None\<rparr>"

text \<open>The messages of a failed result; \<open>str(e)\<close> is appended to the first three.\<close>

definition MSG_CHECK :: string where
  "MSG_CHECK = ''Error checking if PDF is encrypted: ''"

definition MSG_BACKUP :: string where
  "MSG_BACKUP = ''Failed to create backup: ''"

definition MSG_PROCESSING :: string where
  "MSG_PROCESSING = ''Error processing PDF with password: ''"

definition MSG_ALL_FAILED :: string where
  "MSG_ALL_FAILED = ''All passwords failed''"

text \<open>The first \<open>try\<close> block after the classification: validation, then the copy.\<close>

definition create_backup :: "fs \<Rightarrow> path \<Rightarrow> string \<Rightarrow> (exc + path) \<times> fs" where
  "create_backup s filepath backup_dir_name =
     (case validate_backup_path s filepath backup_dir_name of
        (Inl e, s1) \<Rightarrow> (Inl e, s1)
      | (Inr _, s1) \<Rightarrow> copy_backup s1 filepath backup_dir_name)"

text \<open>
  The loop \<open>for password, source in passwords\<close> of \<open>unlock_file\<close>. The handler of
  \<open>pikepdf.PasswordError\<close> encloses the save as well as the open.
\<close>

fun unlock_trials ::
  "'d pikepdf \<Rightarrow> os_env \<Rightarrow> world \<Rightarrow> path \<Rightarrow> candidate list \<Rightarrow> UnlockResult \<times> world" where
  "unlock_trials lib env w filepath [] = (failed_result filepath MSG_ALL_FAILED, w)"
| "unlock_trials lib env w filepath ((password, source) # rest) =
     (case pikepdf_open lib w filepath (Some password) of
        (Raises (PasswordError _), w1) \<Rightarrow> unlock_trials lib env w1 filepath rest
      | (Raises e, w1) \<Rightarrow>
          (failed_result filepath (MSG_PROCESSING @ exc_str e), w1)
      | (Opened pdf_file, w1) \<Rightarrow>
          (case atomic_write env (fsys w1) filepath (save lib pdf_file) of
             (None, s2) \<Rightarrow> (unlocked_result filepath source, w1\<lparr>fsys := s2\<rparr>)
           | (Some (PasswordError _), s2) \<Rightarrow> unlock_trials lib env (w1\<lparr>fsys := s2\<rparr>) filepath rest
           | (Some e, s2) \<Rightarrow>
               (failed_result filepath (MSG_PROCESSING @ exc_str e),
                w1\<lparr>fsys := s2\<rparr>)))"

definition backup_and_trials ::
  "'d pikepdf \<Rightarrow> os_env \<Rightarrow> world \<Rightarrow> path \<Rightarrow> candidate list \<Rightarrow> string \<Rightarrow> UnlockResult \<times> world" where
  "backup_and_trials lib env w filepath passwords backup_dir_name =
     (case create_backup (fsys w) filepath backup_dir_name of
        (Inl e, s1) \<Rightarrow>
          (failed_result filepath (MSG_BACKUP @ exc_str e), w\<lparr>fsys := s1\<rparr>)
      | (Inr _, s1) \<Rightarrow> unlock_trials lib env (w\<lparr>fsys := s1\<rparr>) filepath passwords)"

definition unlock_file ::
  "'d pikepdf \<Rightarrow> os_env \<Rightarrow> world \<Rightarrow> path \<Rightarrow> candidate list \<Rightarrow> string \<Rightarrow> UnlockResult \<times> world" where
  "unlock_file lib env w filepath passwords backup_dir_name =
     (case is_pdf_encrypted lib w filepath of
        (Inl e, w1) \<Rightarrow>
          (failed_result filepath (MSG_CHECK @ exc_str e), w1)
      | (Inr False, w1) \<Rightarrow> (unchanged_result filepath, w1)
      | (Inr True, w1) \<Rightarrow> backup_and_trials lib env w1 filepath passwords backup_dir_name)"

text \<open>The loop of \<open>try_unlock_dry_run\<close>: an accepted password ends it at once.\<close>

fun dry_run_trials ::
  "'d pikepdf \<Rightarrow> world \<Rightarrow> path \<Rightarrow> candidate list \<Rightarrow> UnlockResult \<times> world" where
  "dry_run_trials lib w filepath [] = (failed_result filepath MSG_ALL_FAILED, w)"
| "dry_run_trials lib w filepath ((password, source) # rest) =
     (case pikepdf_open lib w filepath (Some password) of
        (Raises (PasswordError _), w1) \<Rightarrow> dry_run_trials lib w1 filepath rest
      | (Raises e, w1) \<Rightarrow>
          (failed_result filepath (MSG_PROCESSING @ exc_str e), w1)
      | (Opened _, w1) \<Rightarrow> (unlocked_result filepath source, w1))"

definition validate_and_trials ::
  "'d pikepdf \<Rightarrow> world \<Rightarrow> path \<Rightarrow> candidate list \<Rightarrow> string \<Rightarrow> UnlockResult \<times> world" where
  "validate_and_trials lib w filepath passwords backup_dir_name =
     (case validate_backup_path_no_side_effects (fsys w) filepath backup_dir_name of
        Inl e \<Rightarrow> (failed_result filepath (MSG_BACKUP @ exc_str e), w)
      | Inr _ \<Rightarrow> dry_run_trials lib w filepath passwords)"

definition try_unlock_dry_run ::
  "'d pikepdf \<Rightarrow> world \<Rightarrow> path \<Rightarrow> candidate list \<Rightarrow> string \<Rightarrow> UnlockResult \<times> world" where
  "try_unlock_dry_run lib w filepath passwords backup_dir_name =
     (case is_pdf_encrypted lib w filepath of
        (Inl e, w1) \<Rightarrow>
          (failed_result filepath (MSG_CHECK @ exc_str e), w1)
      | (Inr False, w1) \<Rightarrow> (unchanged_result filepath, w1)
      | (Inr True, w1) \<Rightarrow> validate_and_trials lib w1 filepath passwords backup_dir_name)"

section \<open>cli.py\<close>







section \<open>Notions used to state the properties\<close>

subsection \<open>The credential sequence as the specification words it\<close>

text \<open>
  The candidates of each source, in the order of the specification: the single credential,
  the wordlist entries in file order, the environment value, the empty string.
  \<open>first_wins\<close> keeps, of several candidates with the same secret, the first one.
\<close>

fun first_wins :: "candidate list \<Rightarrow> candidate list" where
  "first_wins [] = []"
| "first_wins (c # cs) = c # filter (\<lambda>d. fst d \<noteq> fst c) (first_wins cs)"

definition single_source :: "pystr option \<Rightarrow> candidate list" where
  "single_source single = (case single of None \<Rightarrow> [] | Some s \<Rightarrow> [(s, ''single'')])"

definition wordlist_source :: "(pystr \<Rightarrow> pystr) \<Rightarrow> dict_file option \<Rightarrow> candidate list" where
  "wordlist_source nfkc dictionary_path =
     (case dictionary_path of
        Some (Readable decoded) \<Rightarrow>
          map (\<lambda>p. (p, ''dictionary'')) (iter_from_dictionary nfkc decoded)
      | _ \<Rightarrow> [])"

definition environment_value :: "(string \<times> pystr) list option \<Rightarrow> pystr option" where
  "environment_value env = (case env of None \<Rightarrow> None | Some m \<Rightarrow> map_of m ENV_KEY)"

text \<open>The environment source as the claim words it: the value, whenever there is one.\<close>

definition claimed_environment_source :: "(string \<times> pystr) list option \<Rightarrow> candidate list" where
  "claimed_environment_source env =
     (case environment_value env of None \<Rightarrow> [] | Some v \<Rightarrow> [(v, ''environment'')])"

text \<open>The environment source with an empty value counted as absent.\<close>

definition environment_source :: "(string \<times> pystr) list option \<Rightarrow> candidate list" where
  "environment_source env =
     (case environment_value env of
        None \<Rightarrow> []
      | Some v \<Rightarrow> if v = [] then [] else [(v, ''environment'')])"

definition empty_source :: "bool \<Rightarrow> candidate list" where
  "empty_source try_empty = (if try_empty then [([], ''empty'')] else [])"

definition claimed_candidates ::
  "(pystr \<Rightarrow> pystr) \<Rightarrow> pystr option \<Rightarrow> dict_file option \<Rightarrow> (string \<times> pystr) list option \<Rightarrow> bool
   \<Rightarrow> candidate list" where
  "claimed_candidates nfkc single dictionary_path env try_empty =
     single_source single @ wordlist_source nfkc dictionary_path @
     claimed_environment_source env @ empty_source try_empty"

definition priority_candidates ::
  "(pystr \<Rightarrow> pystr) \<Rightarrow> pystr option \<Rightarrow> dict_file option \<Rightarrow> (string \<times> pystr) list option \<Rightarrow> bool
   \<Rightarrow> candidate list" where
  "priority_candidates nfkc single dictionary_path env try_empty =
     single_source single @ wordlist_source nfkc dictionary_path @
     environment_source env @ empty_source try_empty"

text \<open>
  The invariant of the generator: \<open>seen\<close> holds the secrets of the candidates met so far,
  and the pairs yielded are those candidates with the first of each secret kept.
\<close>

definition tracks :: "gen_state \<Rightarrow> candidate list \<Rightarrow> bool" where
  "tracks st cs \<longleftrightarrow> fst st = fst ` set cs \<and> snd st = first_wins cs"


subsection \<open>The credentials a trial loop opens the file with\<close>

text \<open>
  A credential is rejected when the open with it raises the wrong-password signal. The
  loop goes through the rejected credentials up to the first one that is not rejected,
  and opens the file with each of them.
\<close>

definition rejected :: "'d pikepdf \<Rightarrow> bytes \<Rightarrow> candidate \<Rightarrow> bool" where
  "rejected lib content c =
     (case parse lib content (Some (fst c)) of
        Raises (PasswordError _) \<Rightarrow> True
      | _ \<Rightarrow> False)"

definition tried :: "'d pikepdf \<Rightarrow> bytes \<Rightarrow> candidate list \<Rightarrow> candidate list" where
  "tried lib content pws =
     takeWhile (rejected lib content) pws @ take 1 (dropWhile (rejected lib content) pws)"

definition opens_of :: "path \<Rightarrow> candidate list \<Rightarrow> (path \<times> pystr option) list" where
  "opens_of p cs = map (\<lambda>c. (p, Some (fst c))) cs"

subsection \<open>Dry run against the real run\<close>

definition returns :: "exc + 'a \<Rightarrow> bool" where
  "returns r = (case r of Inl _ \<Rightarrow> False | Inr _ \<Rightarrow> True)"

text \<open>
  Every atomic save that a credential of the sequence would start on the store \<open>s\<close>,
  by being accepted for the file, ends without exception.
\<close>

definition saves_succeed :: "'d pikepdf \<Rightarrow> os_env \<Rightarrow> fs \<Rightarrow> path \<Rightarrow> candidate list \<Rightarrow> bool" where
  "saves_succeed lib env s p pws =
     (\<forall>c \<in> set pws.
        case files s p of
          None \<Rightarrow> True
        | Some (content, _) \<Rightarrow>
            (case parse lib content (Some (fst c)) of
               Opened d \<Rightarrow> fst (atomic_write env s p (save lib d)) = None
             | Raises _ \<Rightarrow> True))"

text \<open>
  The conditions under which the dry run tells what the real run does: the file opens
  without password; or both the check without side effects and the real backup succeed,
  and so do the saves on the store the backup leaves.
\<close>

definition dry_run_faithful ::
  "'d pikepdf \<Rightarrow> os_env \<Rightarrow> world \<Rightarrow> path \<Rightarrow> candidate list \<Rightarrow> string \<Rightarrow> bool" where
  "dry_run_faithful lib env w p pws bdn =
     (case fst (pikepdf_open lib w p None) of
        Opened _ \<Rightarrow> True
      | Raises _ \<Rightarrow>
          returns (validate_backup_path_no_side_effects (fsys w) p bdn) \<and>
          returns (fst (create_backup (fsys w) p bdn)) \<and>
          saves_succeed lib env (snd (create_backup (fsys w) p bdn)) p pws)"

subsection \<open>The outcomes of a run of the command line\<close>




subsection \<open>Concrete inputs\<close>

text \<open>
  A small document library: a file whose first byte is 0 is not protected, one whose first
  byte is 1 is protected with the password \<open>s\<close>, anything else is malformed; saving
  writes the unprotected form.
\<close>

definition toy_pdf :: "bytes pikepdf" where
  "toy_pdf =
     \<lparr>parse = (\<lambda>content password.
         case content of
           [] \<Rightarrow> Raises (OtherException ''not a PDF'')
         | b # rest \<Rightarrow>
             if b = 0 then Opened rest
             else if b = 1 then
               (if password = Some [115] then Opened rest
                else Raises (PasswordError ''invalid password''))
             else Raises (OtherException ''not a PDF'')),
      save = (\<lambda>d. (0 # d, None))\<rparr>"

text \<open>
  A writable directory \<open>d\<close> with an unprotected \<open>a.pdf\<close>, a protected \<open>b.pdf\<close>, a
  malformed \<open>c.pdf\<close> and a protected \<open>u.pdf\<close> that the process may not read; the
  directory with a backup of \<open>b.pdf\<close> left by an earlier run.
\<close>

definition example_fs :: fs where
  "example_fs =
     \<lparr>files = [[''d'', ''a.pdf''] \<mapsto> ([0, 7], rw), [''d'', ''b.pdf''] \<mapsto> ([1, 7], rw),
               [''d'', ''c.pdf''] \<mapsto> ([2, 7], rw),
               [''d'', ''u.pdf''] \<mapsto> ([1, 7], Mode False True)],
      dirs = [[''d''] \<mapsto> True]\<rparr>"

definition backed_up_fs :: fs where
  "backed_up_fs =
     \<lparr>files = [[''d'', ''b.pdf''] \<mapsto> ([1, 7], rw),
               [''d'', ''pdf_with_password'', ''b.pdf''] \<mapsto> ([9, 9], rw)],
      dirs = [[''d''] \<mapsto> True, [''d'', ''pdf_with_password''] \<mapsto> True]\<rparr>"

text \<open>
  The store with an earlier backup that is read-only, and a store whose \<open>b.pdf\<close> is
  read-only and has no backup yet.
\<close>

definition read_only_backup_fs :: fs where
  "read_only_backup_fs =
     \<lparr>files = [[''d'', ''b.pdf''] \<mapsto> ([1, 7], rw),
               [''d'', ''pdf_with_password'', ''b.pdf''] \<mapsto> ([9, 9], Mode True False)],
      dirs = [[''d''] \<mapsto> True, [''d'', ''pdf_with_password''] \<mapsto> True]\<rparr>"

definition read_only_source_fs :: fs where
  "read_only_source_fs =
     \<lparr>files = [[''d'', ''b.pdf''] \<mapsto> ([1, 7], Mode True False)],
      dirs = [[''d''] \<mapsto> True]\<rparr>"

definition example_world :: world where
  "example_world = \<lparr>fsys = example_fs, open_log = []\<rparr>"

definition example_env :: os_env where
  "example_env = \<lparr>tmp_names = [''tmp0.tmp''], flush_raises = None, fsync_raises = None\<rparr>"

definition full_disk_env :: os_env where
  "full_disk_env =
     \<lparr>tmp_names = [''tmp0.tmp''],
      flush_raises = Some (OSError ''[Errno 28] No space left on device''),
      fsync_raises = None\<rparr>"

definition BACKUP_DIR :: string where
  "BACKUP_DIR = ''pdf_with_password''"

text \<open>The pairs of a wordlist with the lines \<open>w\<close> and \<open>s\<close>.\<close>

definition wordlist_pairs :: "candidate list" where
  "wordlist_pairs = [([119], ''dictionary''), ([115], ''dictionary'')]"

definition wrong_pairs :: "candidate list" where
  "wrong_pairs = [([119], ''dictionary''), ([120], ''dictionary'')]"

definition failing_body :: producer where
  "failing_body = ([7, 7], Some (OSError ''disk full''))"

definition good_body :: producer where
  "good_body = ([7, 7], None)"







section \<open>Properties of \<open>io_utils.py\<close>\<close>

lemmas fs_defs = path_parent_def path_name_def joinpath_def with_name_def os_error_def
  py_repr_def path_repr_def
  path_exists_def is_dir_def access_w_def mkdir_exist_ok_def touch_def unlink_def
  write_open_file_def copy2_def os_replace_def ensure_backup_def validate_backup_path_def
  validate_backup_path_no_side_effects_def copy_backup_def atomic_write_def create_backup_def
  Let_def

lemmas run_defs = pikepdf_open_def is_pdf_encrypted_def unlock_file_def try_unlock_dry_run_def
  backup_and_trials_def validate_and_trials_def failed_result_def unlocked_result_def
  unchanged_result_def

lemmas example_defs = toy_pdf_def example_fs_def backed_up_fs_def read_only_backup_fs_def
  read_only_source_fs_def example_world_def
  example_env_def full_disk_env_def BACKUP_DIR_def wordlist_pairs_def wrong_pairs_def
  failing_body_def
  good_body_def

lemma not_path_exists: "\<not> path_exists s p \<longleftrightarrow> files s p = None \<and> dirs s p = None"
  by (cases "files s p") (simp_all add: path_exists_def)

lemma dir_writable: "is_dir s d \<Longrightarrow> access_w s d \<Longrightarrow> dirs s d = Some True"
  by (auto simp: is_dir_def access_w_def)

text \<open>A temporary file is new, lies in the directory asked for, and that directory is
  writable.\<close>

lemma mkstemp_Inr:
  "mkstemp s d ns = Inr (t, s1) \<Longrightarrow>
     files s t = None \<and> dirs s t = None \<and> path_parent t = d \<and> dirs s d = Some True \<and>
     s1 = s\<lparr>files := (files s)(t \<mapsto> ([], rw))\<rparr>"
  by (induction ns)
     (auto simp: Let_def path_parent_def not_path_exists dir_writable split: if_splits)

text \<open>When a step raises, the handler removes the temporary file: the store is the one
  before the call, and the exception is raised again.\<close>

lemma atomic_write_raised:
  assumes "first_raised [snd body, flush_raises env, fsync_raises env] = Some e"
  shows "atomic_write env s filepath body =
           (case mkstemp s (path_parent filepath) (tmp_names env) of
              Inl e' \<Rightarrow> (Some e', s) | Inr _ \<Rightarrow> (Some e, s))"
proof (cases "mkstemp s (path_parent filepath) (tmp_names env)")
  case (Inl e')
  then show ?thesis by (simp add: atomic_write_def)
next
  case (Inr r)
  obtain t s1 where r: "r = (t, s1)" by (cases r)
  from mkstemp_Inr[OF Inr[unfolded r]]
  have fresh: "files s t = None" "dirs s t = None"
    and par: "path_parent t = path_parent filepath" "dirs s (path_parent filepath) = Some True"
    and s1: "s1 = s\<lparr>files := (files s)(t \<mapsto> ([], rw))\<rparr>"
    by simp_all
  let ?s2 = "write_open_file s1 t (fst body)"
  have s2: "?s2 = s\<lparr>files := (files s)(t \<mapsto> (fst body, rw))\<rparr>"
    by (simp add: write_open_file_def s1)
  have "(files s)(t := None) = files s"
    using fresh by (simp add: fun_upd_idem)
  then have "s\<lparr>files := (files s)(t := None)\<rparr> = s"
    by simp
  then have "unlink True ?s2 t = Inr s"
    using fresh par by (simp add: s2 unlink_def is_dir_def access_w_def)
  then show ?thesis using Inr r assms by (simp add: atomic_write_def Let_def)
qed

text \<open>When the entry at the target differs after the call, the call returned normally and
  the target holds what the producer wrote.\<close>

lemma atomic_write_target_changed:
  assumes "files (snd (atomic_write env s filepath body)) filepath \<noteq> files s filepath"
  shows "fst (atomic_write env s filepath body) = None \<and>
         files (snd (atomic_write env s filepath body)) filepath = Some (fst body, rw)"
proof (cases "first_raised [snd body, flush_raises env, fsync_raises env]")
  case (Some e)
  from atomic_write_raised[OF this, of s filepath] assms show ?thesis
    by (auto split: sum.splits)
next
  case None
  show ?thesis
  proof (cases "mkstemp s (path_parent filepath) (tmp_names env)")
    case (Inl e')
    with assms show ?thesis by (simp add: atomic_write_def)
  next
    case (Inr r)
    obtain t s1 where r: "r = (t, s1)" by (cases r)
    from mkstemp_Inr[OF Inr[unfolded r]]
    have fresh: "files s t = None" "dirs s t = None"
      and par: "path_parent t = path_parent filepath" "dirs s (path_parent filepath) = Some True"
      and s1: "s1 = s\<lparr>files := (files s)(t \<mapsto> ([], rw))\<rparr>"
      by simp_all
    let ?s2 = "write_open_file s1 t (fst body)"
    have s2: "?s2 = s\<lparr>files := (files s)(t \<mapsto> (fst body, rw))\<rparr>"
      by (simp add: write_open_file_def s1)
    have aw: "atomic_write env s filepath body =
        (case os_replace ?s2 t filepath of Inl e \<Rightarrow> (Some e, ?s2) | Inr s3 \<Rightarrow> (None, s3))"
      using Inr r None by (simp add: atomic_write_def Let_def)
    show ?thesis
    proof (cases "t = filepath")
      case True
      then have fp: "filepath = t" by simp
      from aw[unfolded fp] fresh par[unfolded fp] show ?thesis unfolding fp
        by (simp add: s2 os_replace_def is_dir_def access_w_def)
    next
      case False
      then show ?thesis using assms fresh par unfolding aw s2
        by (auto simp: os_replace_def is_dir_def access_w_def split: if_splits)
    qed
  qed
qed

text \<open>
  Claim C1. For every target and every producer: when the producer, the flush or the
  sync raises, \<open>atomic_write\<close> raises and leaves the store exactly as it was before the
  call, so the target has its old bytes and no temporary file remains. Whenever the entry
  at the target is not what it was, nothing was raised, the call returned normally (it
  went through the rename) and the target holds the bytes the producer wrote.
\<close>

theorem atomic_write_failure_leaves_store:
  "(first_raised [snd body, flush_raises env, fsync_raises env] \<noteq> None \<longrightarrow>
      snd (atomic_write env s filepath body) = s \<and>
      fst (atomic_write env s filepath body) \<noteq> None) \<and>
   (files (snd (atomic_write env s filepath body)) filepath \<noteq> files s filepath \<longrightarrow>
      first_raised [snd body, flush_raises env, fsync_raises env] = None \<and>
      fst (atomic_write env s filepath body) = None \<and>
      files (snd (atomic_write env s filepath body)) filepath = Some (fst body, rw))"
proof (intro conjI impI)
  assume "first_raised [snd body, flush_raises env, fsync_raises env] \<noteq> None"
  then obtain e where e: "first_raised [snd body, flush_raises env, fsync_raises env] = Some e"
    by auto
  from atomic_write_raised[OF e, of s filepath]
  show "snd (atomic_write env s filepath body) = s" "fst (atomic_write env s filepath body) \<noteq> None"
    by (auto split: sum.splits)
next
  assume ch: "files (snd (atomic_write env s filepath body)) filepath \<noteq> files s filepath"
  from atomic_write_target_changed[OF ch]
  show "fst (atomic_write env s filepath body) = None"
    "files (snd (atomic_write env s filepath body)) filepath = Some (fst body, rw)" by auto
  show "first_raised [snd body, flush_raises env, fsync_raises env] = None"
  proof (rule ccontr)
    assume "first_raised [snd body, flush_raises env, fsync_raises env] \<noteq> None"
    then obtain e where e: "first_raised [snd body, flush_raises env, fsync_raises env] = Some e"
      by auto
    from atomic_write_raised[OF e, of s filepath] ch show False by (auto split: sum.splits)
  qed
qed

text \<open>
  A producer that raises after writing two bytes over \<open>d/a.pdf\<close> leaves the example
  store as it was; one that returns replaces the file.
\<close>

theorem atomic_write_failure_leaves_store_witness:
  "first_raised [snd failing_body, flush_raises example_env, fsync_raises example_env] \<noteq> None \<and>
   snd (atomic_write example_env example_fs [''d'', ''a.pdf''] failing_body) = example_fs \<and>
   fst (atomic_write example_env example_fs [''d'', ''a.pdf''] failing_body) \<noteq> None \<and>
   files (snd (atomic_write example_env example_fs [''d'', ''a.pdf''] good_body)) [''d'', ''a.pdf'']
     \<noteq> files example_fs [''d'', ''a.pdf''] \<and>
   fst (atomic_write example_env example_fs [''d'', ''a.pdf''] good_body) = None \<and>
   files (snd (atomic_write example_env example_fs [''d'', ''a.pdf''] good_body)) [''d'', ''a.pdf'']
     = Some ([7, 7], rw)"
proof -
  have h1: "first_raised [snd failing_body, flush_raises example_env, fsync_raises example_env]
      \<noteq> None"
    by (simp add: failing_body_def)
  have h2: "files (snd (atomic_write example_env example_fs [''d'', ''a.pdf''] good_body))
      [''d'', ''a.pdf''] \<noteq> files example_fs [''d'', ''a.pdf'']"
    by (simp add: fs_defs example_defs)
  have h3: "fst good_body = [7, 7]"
    by (simp add: good_body_def)
  from h1 h2 h3
    atomic_write_failure_leaves_store[of failing_body example_env example_fs "[''d'', ''a.pdf'']"]
    atomic_write_failure_leaves_store[of good_body example_env example_fs "[''d'', ''a.pdf'']"]
  show ?thesis by simp
qed

lemma ensure_backup_existing:
  "is_dir s (joinpath (path_parent src) bdn) \<Longrightarrow>
   ensure_backup s src bdn = (Inr (joinpath (path_parent src) bdn), s)"
  by (simp add: ensure_backup_def mkdir_exist_ok_def Let_def)

text \<open>
  Counterexample to claim C9 as stated: the copy is not unconditional. In the store
  where the earlier backup of \<open>b.pdf\<close> is read-only, \<open>copy_backup\<close> raises a permission
  error and the backup keeps its old bytes 9 9, not the bytes 1 7 of the source.
\<close>

theorem read_only_backup_is_kept:
  "files read_only_backup_fs [''d'', ''b.pdf''] = Some ([1, 7], rw) \<and>
   fst (copy_backup read_only_backup_fs [''d'', ''b.pdf''] BACKUP_DIR)
     = Inl (os_error EACCES [''d'', ''pdf_with_password'', ''b.pdf'']) \<and>
   files (snd (copy_backup read_only_backup_fs [''d'', ''b.pdf''] BACKUP_DIR))
     [''d'', ''pdf_with_password'', ''b.pdf''] = Some ([9, 9], Mode True False)"
  by (simp add: fs_defs example_defs)

text \<open>
  \<open>copy_backup\<close> makes such a backup itself: the copy takes the mode of the source, so
  after the backup of a read-only source the next backup of the same source raises.
\<close>

lemma second_backup_of_read_only_source_raises:
  "fst (copy_backup read_only_source_fs [''d'', ''b.pdf''] BACKUP_DIR)
     = Inr [''d'', ''pdf_with_password'', ''b.pdf''] \<and>
   files (snd (copy_backup read_only_source_fs [''d'', ''b.pdf''] BACKUP_DIR))
     [''d'', ''pdf_with_password'', ''b.pdf''] = Some ([1, 7], Mode True False) \<and>
   fst (copy_backup (snd (copy_backup read_only_source_fs [''d'', ''b.pdf''] BACKUP_DIR))
          [''d'', ''b.pdf''] BACKUP_DIR)
     = Inl (os_error EACCES [''d'', ''pdf_with_password'', ''b.pdf''])"
  by (simp add: fs_defs example_defs)

text \<open>
  Claim C9, amended. \<open>copy_backup\<close> makes no check of its own on what the backup path
  holds. With a readable source, the backup directory present and a regular file already
  at \<open>backup_dir/source-name\<close>: when that file is writable, the call succeeds and the
  file receives the bytes and the mode the source has now, whatever it held before, and
  nothing else in the store changes; when that file is read-only, the call raises a
  permission error and the store, with the old backup, stays as it is.
\<close>

theorem copy_backup_overwrites_writable_backup:
  assumes src: "files s src = Some (content, m)"
    and rd: "can_read m"
    and dir: "is_dir s (joinpath (path_parent src) bdn)"
    and old: "files s (joinpath (joinpath (path_parent src) bdn) (path_name src)) = Some (old, om)"
    and nodir: "\<not> is_dir s (joinpath (joinpath (path_parent src) bdn) (path_name src))"
    and neq: "src \<noteq> joinpath (joinpath (path_parent src) bdn) (path_name src)"
  shows "copy_backup s src bdn =
           (if can_write om
            then (Inr (joinpath (joinpath (path_parent src) bdn) (path_name src)),
                  s\<lparr>files := (files s)(joinpath (joinpath (path_parent src) bdn) (path_name src)
                                \<mapsto> (content, m))\<rparr>)
            else (Inl (os_error EACCES (joinpath (joinpath (path_parent src) bdn) (path_name src))),
                  s))"
proof -
  let ?bp = "joinpath (joinpath (path_parent src) bdn) (path_name src)"
  have acc: "access_w s ?bp = can_write om"
    using old nodir by (simp add: access_w_def is_dir_def)
  have "copy2 s src ?bp =
          (if can_write om then Inr (s\<lparr>files := (files s)(?bp \<mapsto> (content, m))\<rparr>)
           else Inl (os_error EACCES ?bp))"
    using src rd old nodir neq acc by (simp add: copy2_def Let_def)
  then show ?thesis
    by (simp add: copy_backup_def ensure_backup_existing[OF dir] Let_def)
qed

text \<open>
  In the store with a writable earlier backup of \<open>b.pdf\<close> holding the bytes 9 9, a second
  \<open>copy_backup\<close> replaces them by the bytes 1 7 of the source.
\<close>

theorem copy_backup_overwrites_writable_backup_witness:
  "files backed_up_fs [''d'', ''b.pdf''] = Some ([1, 7], rw) \<and>
   is_dir backed_up_fs (joinpath (path_parent [''d'', ''b.pdf'']) BACKUP_DIR) \<and>
   files backed_up_fs
     (joinpath (joinpath (path_parent [''d'', ''b.pdf'']) BACKUP_DIR) (path_name [''d'', ''b.pdf'']))
     = Some ([9, 9], rw) \<and>
   fst (copy_backup backed_up_fs [''d'', ''b.pdf''] BACKUP_DIR)
     = Inr [''d'', ''pdf_with_password'', ''b.pdf''] \<and>
   files (snd (copy_backup backed_up_fs [''d'', ''b.pdf''] BACKUP_DIR))
     [''d'', ''pdf_with_password'', ''b.pdf''] = Some ([1, 7], rw)"
proof -
  let ?src = "[''d'', ''b.pdf'']"
  let ?bp = "joinpath (joinpath (path_parent ?src) BACKUP_DIR) (path_name ?src)"
  have bp: "?bp = [''d'', ''pdf_with_password'', ''b.pdf'']"
    by (simp add: fs_defs example_defs)
  have h1: "files backed_up_fs ?src = Some ([1, 7], rw)"
    by (simp add: example_defs)
  have h2: "is_dir backed_up_fs (joinpath (path_parent ?src) BACKUP_DIR)"
    by (simp add: fs_defs example_defs)
  have h3: "files backed_up_fs ?bp = Some ([9, 9], rw)"
    by (simp add: bp) (simp add: example_defs)
  have h4: "\<not> is_dir backed_up_fs ?bp"
    by (simp add: bp) (simp add: is_dir_def example_defs)
  have h5: "?src \<noteq> ?bp"
    by (simp add: bp)
  have h0: "can_read rw"
    by simp
  from copy_backup_overwrites_writable_backup[OF h1 h0 h2 h3 h4 h5] h1 h2 h3 bp
  show ?thesis by simp
qed

text \<open>The backup stage leaves the entry of the source as it is.\<close>

lemma test_path_neq:
  assumes "with_name (joinpath (joinpath (path_parent p) bdn) (path_name p))
             (path_name (joinpath (joinpath (path_parent p) bdn) (path_name p)) @ ''.tmp_test'')
           = Inr t"
  shows "t \<noteq> p"
proof
  assume tp: "t = p"
  let ?bp = "joinpath (joinpath (path_parent p) bdn) (path_name p)"
  from assms have nm: "path_name ?bp \<noteq> []"
    and t: "t = path_parent ?bp @ [path_name ?bp @ ''.tmp_test'']"
    by (auto simp: with_name_def split: if_splits)
  from t tp have pe: "p = path_parent ?bp @ [path_name ?bp @ ''.tmp_test'']" by simp
  then have pne: "p \<noteq> []" by auto
  from pe have l: "last p = path_name ?bp @ ''.tmp_test''"
    by (metis last_snoc)
  show False
  proof (cases "last p = []")
    case True with l show False by simp
  next
    case False
    then have bp: "?bp = joinpath (butlast p) bdn @ [last p]"
      using pne by (simp add: joinpath_def path_name_def path_parent_def)
    then have "path_name ?bp = last p" by (simp add: path_name_def)
    with l show False by simp
  qed
qed

lemma mkdir_files: "mkdir_exist_ok s d = Inr s1 \<Longrightarrow> files s1 = files s"
  by (auto simp: mkdir_exist_ok_def split: if_splits)

lemma ensure_backup_files: "ensure_backup s src bdn = (r, s1) \<Longrightarrow> files s1 = files s"
  by (auto simp: ensure_backup_def Let_def mkdir_files split: sum.splits)

lemma touch_files: "touch s t = Inr s1 \<Longrightarrow> t \<noteq> p \<Longrightarrow> files s1 p = files s p"
  by (auto simp: touch_def split: if_splits)

lemma unlink_files: "unlink m s t = Inr s1 \<Longrightarrow> t \<noteq> p \<Longrightarrow> files s1 p = files s p"
  by (auto simp: unlink_def split: if_splits)

lemma validate_backup_path_keeps:
  assumes v: "validate_backup_path s p bdn = (r, s1)"
  shows "files s1 p = files s p"
proof -
  obtain r0 s0 where e: "ensure_backup s p bdn = (r0, s0)" by (cases "ensure_backup s p bdn")
  have f0: "files s0 = files s" using ensure_backup_files[OF e] .
  show ?thesis
  proof (cases r0)
    case (Inl x)
    with v e f0 show ?thesis by (simp add: validate_backup_path_def)
  next
    case (Inr bd)
    then have bd: "bd = joinpath (path_parent p) bdn"
      using e by (auto simp: ensure_backup_def Let_def split: sum.splits)
    let ?bp = "joinpath bd (path_name p)"
    show ?thesis
    proof (cases "with_name ?bp (path_name ?bp @ ''.tmp_test'')")
      case (Inl x)
      with v e Inr f0 show ?thesis by (simp add: validate_backup_path_def Let_def)
    next
      case (Inr t)
      note wn = this
      from test_path_neq[OF wn[unfolded bd]] have tp: "t \<noteq> p" .
      show ?thesis
      proof (cases "touch s0 t")
        case (Inl x)
        with v e \<open>r0 = Inr bd\<close> wn f0 show ?thesis
          by (simp add: validate_backup_path_def Let_def)
      next
        case (Inr s2)
        note to = this
        from touch_files[OF to tp] f0 have f2: "files s2 p = files s p" by simp
        show ?thesis
        proof (cases "unlink False s2 t")
          case (Inl x)
          with v e \<open>r0 = Inr bd\<close> wn to f2 show ?thesis
            by (simp add: validate_backup_path_def Let_def)
        next
          case (Inr s3)
          from unlink_files[OF Inr tp] f2 have "files s3 p = files s p" by simp
          with v e \<open>r0 = Inr bd\<close> wn to Inr show ?thesis
            by (simp add: validate_backup_path_def Let_def)
        qed
      qed
    qed
  qed
qed

lemma copy2_keeps: "copy2 s src dst = Inr s1 \<Longrightarrow> files s1 src = files s src"
  by (auto simp: copy2_def Let_def not_path_exists split: if_splits option.splits)

lemma copy2_src:
  "copy2 s src dst = Inr s1 \<Longrightarrow> \<exists>entry. files s src = Some entry \<and> can_read (snd entry)"
  by (auto simp: copy2_def Let_def split: if_splits option.splits)

lemma copy_backup_keeps:
  assumes "copy_backup s p bdn = (r, s1)"
  shows "files s1 p = files s p"
proof -
  obtain r0 s0 where e: "ensure_backup s p bdn = (r0, s0)" by (cases "ensure_backup s p bdn")
  have f0: "files s0 = files s" using ensure_backup_files[OF e] .
  show ?thesis
  proof (cases r0)
    case (Inl x)
    with assms e f0 show ?thesis by (simp add: copy_backup_def)
  next
    case (Inr bd)
    show ?thesis
    proof (cases "copy2 s0 p (joinpath bd (path_name p))")
      case (Inl x)
      with assms e \<open>r0 = Inr bd\<close> f0 show ?thesis by (simp add: copy_backup_def Let_def)
    next
      case (Inr s2)
      from copy2_keeps[OF this] f0 have "files s2 p = files s p" by simp
      with assms e \<open>r0 = Inr bd\<close> Inr show ?thesis by (simp add: copy_backup_def Let_def)
    qed
  qed
qed

lemma create_backup_keeps:
  assumes "create_backup s p bdn = (r, s1)"
  shows "files s1 p = files s p"
proof -
  obtain r0 s0 where v: "validate_backup_path s p bdn = (r0, s0)"
    by (cases "validate_backup_path s p bdn")
  have f0: "files s0 p = files s p" using validate_backup_path_keeps[OF v] .
  show ?thesis
  proof (cases r0)
    case (Inl x)
    with assms v f0 show ?thesis by (simp add: create_backup_def)
  next
    case (Inr bp)
    with assms v have "copy_backup s0 p bdn = (r, s1)" by (simp add: create_backup_def)
    from copy_backup_keeps[OF this] f0 show ?thesis by simp
  qed
qed

text \<open>A backup that succeeds has copied an existing source.\<close>

lemma create_backup_source:
  assumes "create_backup s p bdn = (Inr bp, s1)"
  shows "\<exists>content m. files s p = Some (content, m) \<and> can_read m"
proof -
  obtain r0 s0 where v: "validate_backup_path s p bdn = (r0, s0)"
    by (cases "validate_backup_path s p bdn")
  with assms obtain x where r0: "r0 = Inr x" and cb: "copy_backup s0 p bdn = (Inr bp, s1)"
    by (cases r0) (simp_all add: create_backup_def)
  obtain r1 s2 where e: "ensure_backup s0 p bdn = (r1, s2)" by (cases "ensure_backup s0 p bdn")
  with cb obtain bd where r1: "r1 = Inr bd" by (cases r1) (simp_all add: copy_backup_def)
  from cb e r1 obtain s3 where "copy2 s2 p (joinpath bd (path_name p)) = Inr s3"
    by (cases "copy2 s2 p (joinpath bd (path_name p))") (simp_all add: copy_backup_def Let_def)
  from copy2_src[OF this] obtain entry where "files s2 p = Some entry" "can_read (snd entry)"
    by blast
  moreover have "files s2 p = files s p"
    using ensure_backup_files[OF e] validate_backup_path_keeps[OF v] by simp
  ultimately show ?thesis by (cases entry) simp
qed

section \<open>Properties of \<open>unlocker.py\<close>\<close>

lemma pikepdf_open_pair:
  "pikepdf_open lib w p pw =
     (fst (pikepdf_open lib w p pw), w\<lparr>open_log := open_log w @ [(p, pw)]\<rparr>)"
  by (simp add: pikepdf_open_def)

lemma pikepdf_open_eq:
  "files (fsys w) p = Some (content, m) \<Longrightarrow> can_read m \<Longrightarrow>
   pikepdf_open lib w p pw = (parse lib content pw, w\<lparr>open_log := open_log w @ [(p, pw)]\<rparr>)"
  by (simp add: pikepdf_open_def)

lemma is_pdf_encrypted_Opened:
  assumes "fst (pikepdf_open lib w p None) = Opened d"
  shows "is_pdf_encrypted lib w p = (Inr False, w\<lparr>open_log := open_log w @ [(p, None)]\<rparr>)"
proof -
  have "pikepdf_open lib w p None = (Opened d, w\<lparr>open_log := open_log w @ [(p, None)]\<rparr>)"
    using pikepdf_open_pair[of lib w p None] assms by simp
  then show ?thesis by (simp add: is_pdf_encrypted_def)
qed

lemma is_pdf_encrypted_Raises:
  assumes "fst (pikepdf_open lib w p None) = Raises e"
  shows "is_pdf_encrypted lib w p = (Inr True, w\<lparr>open_log := open_log w @ [(p, None)]\<rparr>)"
proof -
  have "pikepdf_open lib w p None = (Raises e, w\<lparr>open_log := open_log w @ [(p, None)]\<rparr>)"
    using pikepdf_open_pair[of lib w p None] assms by simp
  then show ?thesis by (cases e) (simp_all add: is_pdf_encrypted_def)
qed

text \<open>\<open>is_pdf_encrypted\<close> returns a boolean on every input, after one open without
  password.\<close>

lemma is_pdf_encrypted_total:
  "\<exists>b. is_pdf_encrypted lib w p = (Inr b, w\<lparr>open_log := open_log w @ [(p, None)]\<rparr>)"
proof (cases "fst (pikepdf_open lib w p None)")
  case (Opened d)
  from is_pdf_encrypted_Opened[OF this] show ?thesis by (intro exI[of _ False]) simp
next
  case (Raises e)
  from is_pdf_encrypted_Raises[OF this] show ?thesis by (intro exI[of _ True]) simp
qed

text \<open>
  Claim C3. When the file opens without a credential, \<open>unlock_file\<close> and
  \<open>try_unlock_dry_run\<close> both return the status \<open>UNCHANGED\<close> with the origin
  \<open>already_unlocked\<close> and no message, whatever the credential sequence is; the store is
  untouched (no backup directory, no backup file), and the only call of the open
  capability is the one without password: no credential is tried.
\<close>

theorem already_unlocked_is_unchanged:
  assumes "fst (pikepdf_open lib w p None) = Opened d"
  shows "status (fst (unlock_file lib env w p pws bdn)) = UNCHANGED \<and>
         method_used (fst (unlock_file lib env w p pws bdn)) = Some ''already_unlocked'' \<and>
         error_message (fst (unlock_file lib env w p pws bdn)) = None \<and>
         fsys (snd (unlock_file lib env w p pws bdn)) = fsys w \<and>
         open_log (snd (unlock_file lib env w p pws bdn)) = open_log w @ [(p, None)] \<and>
         status (fst (try_unlock_dry_run lib w p pws bdn)) = UNCHANGED \<and>
         method_used (fst (try_unlock_dry_run lib w p pws bdn)) = Some ''already_unlocked'' \<and>
         error_message (fst (try_unlock_dry_run lib w p pws bdn)) = None \<and>
         fsys (snd (try_unlock_dry_run lib w p pws bdn)) = fsys w \<and>
         open_log (snd (try_unlock_dry_run lib w p pws bdn)) = open_log w @ [(p, None)]"
  using is_pdf_encrypted_Opened[OF assms]
  by (simp add: unlock_file_def try_unlock_dry_run_def unchanged_result_def)

text \<open>The unprotected \<open>a.pdf\<close> of the example, with the two wordlist credentials.\<close>

theorem already_unlocked_is_unchanged_witness:
  "fst (pikepdf_open toy_pdf example_world [''d'', ''a.pdf''] None) = Opened [7] \<and>
   status (fst (unlock_file toy_pdf example_env example_world [''d'', ''a.pdf''] wordlist_pairs
     BACKUP_DIR)) = UNCHANGED \<and>
   fsys (snd (unlock_file toy_pdf example_env example_world [''d'', ''a.pdf''] wordlist_pairs
     BACKUP_DIR)) = example_fs \<and>
   open_log (snd (unlock_file toy_pdf example_env example_world [''d'', ''a.pdf''] wordlist_pairs
     BACKUP_DIR)) = [([''d'', ''a.pdf''], None)] \<and>
   status (fst (try_unlock_dry_run toy_pdf example_world [''d'', ''a.pdf''] wordlist_pairs
     BACKUP_DIR)) = UNCHANGED"
proof -
  have h: "fst (pikepdf_open toy_pdf example_world [''d'', ''a.pdf''] None) = Opened [7]"
    by (simp add: pikepdf_open_def example_defs)
  from already_unlocked_is_unchanged[OF h, of example_env wordlist_pairs BACKUP_DIR] h
  show ?thesis by (simp add: example_world_def)
qed

text \<open>
  Claim C2. For a file classified as protected: when the validation of the backup raises,
  or the validation returns and the copy raises, \<open>unlock_file\<close> returns \<open>FAILED\<close> with
  the message \<open>Failed to create backup:\<close> followed by the text of the exception, and
  the log of the open capability holds the classifying call alone: no credential of the
  sequence was tried.
\<close>

theorem backup_failure_fails_without_trials:
  assumes enc: "fst (is_pdf_encrypted lib w p) = Inr True"
    and bad: "fst (validate_backup_path (fsys w) p bdn) = Inl e \<or>
              (returns (fst (validate_backup_path (fsys w) p bdn)) \<and>
               fst (copy_backup (snd (validate_backup_path (fsys w) p bdn)) p bdn) = Inl e)"
  shows "status (fst (unlock_file lib env w p pws bdn)) = FAILED \<and>
         error_message (fst (unlock_file lib env w p pws bdn)) = Some (MSG_BACKUP @ exc_str e) \<and>
         method_used (fst (unlock_file lib env w p pws bdn)) = None \<and>
         open_log (snd (unlock_file lib env w p pws bdn)) = open_log w @ [(p, None)]"
proof -
  from is_pdf_encrypted_total[of lib w p] enc
  have cls: "is_pdf_encrypted lib w p = (Inr True, w\<lparr>open_log := open_log w @ [(p, None)]\<rparr>)"
    by auto
  obtain r0 s0 where v: "validate_backup_path (fsys w) p bdn = (r0, s0)"
    by (cases "validate_backup_path (fsys w) p bdn")
  obtain r1 s1 where c: "copy_backup s0 p bdn = (r1, s1)"
    by (cases "copy_backup s0 p bdn")
  from bad v c have "\<exists>s2. create_backup (fsys w) p bdn = (Inl e, s2)"
    by (cases r0) (auto simp: create_backup_def returns_def)
  then obtain s2 where "create_backup (fsys w) p bdn = (Inl e, s2)" ..
  with cls show ?thesis
    by (simp add: unlock_file_def backup_and_trials_def failed_result_def)
qed

text \<open>
  A path with no file behind it: it is classified as protected, the validation returns,
  the copy raises, and no credential is tried.
\<close>

theorem backup_failure_fails_without_trials_witness:
  "fst (is_pdf_encrypted toy_pdf example_world [''d'', ''missing.pdf'']) = Inr True \<and>
   returns (fst (validate_backup_path (fsys example_world) [''d'', ''missing.pdf''] BACKUP_DIR)) \<and>
   fst (copy_backup (snd (validate_backup_path (fsys example_world) [''d'', ''missing.pdf'']
          BACKUP_DIR)) [''d'', ''missing.pdf''] BACKUP_DIR)
     = Inl (os_error ENOENT [''d'', ''missing.pdf'']) \<and>
   status (fst (unlock_file toy_pdf example_env example_world [''d'', ''missing.pdf'']
     wordlist_pairs BACKUP_DIR)) = FAILED \<and>
   error_message (fst (unlock_file toy_pdf example_env example_world [''d'', ''missing.pdf'']
     wordlist_pairs BACKUP_DIR))
     = Some (MSG_BACKUP @ exc_str (os_error ENOENT [''d'', ''missing.pdf''])) \<and>
   open_log (snd (unlock_file toy_pdf example_env example_world [''d'', ''missing.pdf'']
     wordlist_pairs BACKUP_DIR)) = [([''d'', ''missing.pdf''], None)]"
proof -
  let ?p = "[''d'', ''missing.pdf'']"
  have h1: "fst (is_pdf_encrypted toy_pdf example_world ?p) = Inr True"
    by (simp add: run_defs fs_defs example_defs)
  have h2: "returns (fst (validate_backup_path (fsys example_world) ?p BACKUP_DIR))"
    by (simp add: returns_def fs_defs example_defs)
  have h3: "fst (copy_backup (snd (validate_backup_path (fsys example_world) ?p BACKUP_DIR))
              ?p BACKUP_DIR) = Inl (os_error ENOENT ?p)"
    by (simp add: fs_defs example_defs)
  from h2 h3
  have bad: "fst (validate_backup_path (fsys example_world) ?p BACKUP_DIR)
               = Inl (os_error ENOENT ?p) \<or>
             (returns (fst (validate_backup_path (fsys example_world) ?p BACKUP_DIR)) \<and>
              fst (copy_backup (snd (validate_backup_path (fsys example_world) ?p BACKUP_DIR))
                ?p BACKUP_DIR) = Inl (os_error ENOENT ?p))"
    by blast
  from backup_failure_fails_without_trials[OF h1 bad, of example_env wordlist_pairs] h1 h2 h3
  show ?thesis by (simp add: example_world_def)
qed

text \<open>No message of the later stages can be taken for the message of the classification.\<close>

lemma msg_distinct:
  "MSG_BACKUP @ x \<noteq> MSG_CHECK @ m"
  "MSG_PROCESSING @ x \<noteq> MSG_CHECK @ m"
  "MSG_ALL_FAILED \<noteq> MSG_CHECK @ m"
  by (simp_all add: MSG_BACKUP_def MSG_CHECK_def MSG_PROCESSING_def MSG_ALL_FAILED_def)

lemma unlock_trials_msg:
  "error_message (fst (unlock_trials lib env w p pws)) \<noteq> Some (MSG_CHECK @ m)"
proof (induction pws arbitrary: w)
  case Nil show ?case by (simp add: failed_result_def msg_distinct)
next
  case (Cons c pws)
  obtain pw src where c: "c = (pw, src)" by (cases c)
  show ?case unfolding c
    using Cons.IH
    by (auto simp: failed_result_def unlocked_result_def pikepdf_open_def msg_distinct
          split: opened.splits exc.splits option.splits prod.splits)
qed

lemma dry_run_trials_msg:
  "error_message (fst (dry_run_trials lib w p pws)) \<noteq> Some (MSG_CHECK @ m)"
proof (induction pws arbitrary: w)
  case Nil show ?case by (simp add: failed_result_def msg_distinct)
next
  case (Cons c pws)
  obtain pw src where c: "c = (pw, src)" by (cases c)
  show ?case unfolding c
    using Cons.IH
    by (auto simp: failed_result_def unlocked_result_def pikepdf_open_def msg_distinct
          split: opened.splits exc.splits option.splits prod.splits)
qed

lemma unlock_file_never_check_error:
  "error_message (fst (unlock_file lib env w p pws bdn)) \<noteq> Some (MSG_CHECK @ m)"
proof -
  obtain b where b: "is_pdf_encrypted lib w p = (Inr b, w\<lparr>open_log := open_log w @ [(p, None)]\<rparr>)"
    using is_pdf_encrypted_total by blast
  show ?thesis
  proof (cases b)
    case False
    with b show ?thesis by (simp add: unlock_file_def unchanged_result_def)
  next
    case True
    with b show ?thesis
      by (auto simp: unlock_file_def backup_and_trials_def failed_result_def unlock_trials_msg
            msg_distinct split: prod.splits sum.splits)
  qed
qed

lemma try_unlock_dry_run_never_check_error:
  "error_message (fst (try_unlock_dry_run lib w p pws bdn)) \<noteq> Some (MSG_CHECK @ m)"
proof -
  obtain b where b: "is_pdf_encrypted lib w p = (Inr b, w\<lparr>open_log := open_log w @ [(p, None)]\<rparr>)"
    using is_pdf_encrypted_total by blast
  show ?thesis
  proof (cases b)
    case False
    with b show ?thesis by (simp add: try_unlock_dry_run_def unchanged_result_def)
  next
    case True
    with b show ?thesis
      by (auto simp: try_unlock_dry_run_def validate_and_trials_def failed_result_def
            dry_run_trials_msg msg_distinct split: sum.splits)
  qed
qed

text \<open>The backup that succeeds has put the entry of the source at the backup path.\<close>

lemma copy2_made:
  assumes "copy2 s src dst = Inr s1" "files s src = Some entry"
  shows "files s1 dst = Some entry \<or> is_dir s1 dst"
proof (cases "is_dir s dst")
  case True
  with assms have "dirs s1 = dirs s"
    by (auto simp: copy2_def Let_def split: if_splits option.splits)
  with True show ?thesis by (simp add: is_dir_def)
next
  case False
  with assms show ?thesis
    by (auto simp: copy2_def Let_def split: if_splits option.splits)
qed

lemma create_backup_made:
  assumes cb: "create_backup s p bdn = (Inr bp, s1)" and src: "files s p = Some entry"
  shows "files s1 bp = Some entry \<or> is_dir s1 bp"
proof -
  obtain r0 s0 where v: "validate_backup_path s p bdn = (r0, s0)"
    by (cases "validate_backup_path s p bdn")
  with cb obtain x where r0: "r0 = Inr x" and c: "copy_backup s0 p bdn = (Inr bp, s1)"
    by (cases r0) (simp_all add: create_backup_def)
  obtain r1 s2 where e: "ensure_backup s0 p bdn = (r1, s2)" by (cases "ensure_backup s0 p bdn")
  with c obtain bd where r1: "r1 = Inr bd" by (cases r1) (simp_all add: copy_backup_def)
  from c e r1 have c2: "copy2 s2 p (joinpath bd (path_name p)) = Inr s1"
    and bp: "bp = joinpath bd (path_name p)"
    by (cases "copy2 s2 p (joinpath bd (path_name p))"; simp add: copy_backup_def Let_def)+
  have "files s2 p = Some entry"
    using ensure_backup_files[OF e] validate_backup_path_keeps[OF v] src by simp
  from copy2_made[OF c2 this] bp show ?thesis by simp
qed

text \<open>The trial loop only adds to the log of opens.\<close>

lemma unlock_trials_log_grows:
  "prefix (open_log w) (open_log (snd (unlock_trials lib env w p pws)))"
proof (induction pws arbitrary: w)
  case Nil show ?case by simp
next
  case (Cons c pws)
  obtain pw src where c: "c = (pw, src)" by (cases c)
  let ?w1 = "w\<lparr>open_log := open_log w @ [(p, Some pw)]\<rparr>"
  have o: "pikepdf_open lib w p (Some pw) = (fst (pikepdf_open lib w p (Some pw)), ?w1)"
    by (rule pikepdf_open_pair)
  have step: "\<And>w'. open_log w' = open_log ?w1 \<Longrightarrow>
      prefix (open_log w) (open_log (snd (unlock_trials lib env w' p pws)))"
  proof -
    fix w' :: world assume l: "open_log w' = open_log ?w1"
    have "prefix (open_log w') (open_log (snd (unlock_trials lib env w' p pws)))"
      by (rule Cons.IH)
    moreover have "prefix (open_log w) (open_log w')" using l by simp
    ultimately show "prefix (open_log w) (open_log (snd (unlock_trials lib env w' p pws)))"
      by (rule prefix_order.trans[rotated])
  qed
  show ?case
  proof (cases "fst (pikepdf_open lib w p (Some pw))")
    case (Opened d)
    obtain r s2 where aw: "atomic_write env (fsys ?w1) p (save lib d) = (r, s2)"
      by (cases "atomic_write env (fsys ?w1) p (save lib d)")
    show ?thesis
    proof (cases r)
      case None
      with o Opened aw show ?thesis by (simp add: c)
    next
      case (Some x)
      with o Opened aw step[of "?w1\<lparr>fsys := s2\<rparr>"] show ?thesis
        by (cases x) (simp_all add: c)
    qed
  next
    case (Raises x)
    with o step[of ?w1] show ?thesis by (cases x) (simp_all add: c)
  qed
qed

text \<open>
  On a readable file: the credentials are opened in order up to the first that is not
  rejected; when all are rejected the loop ends with \<open>All passwords failed\<close>, and when
  the first that is not rejected raises, it ends with that error.
\<close>

lemma unlock_trials_tried:
  assumes "files (fsys w) p = Some (content, m)" "can_read m"
  shows "prefix (open_log w @ opens_of p (tried lib content pws))
           (open_log (snd (unlock_trials lib env w p pws)))"
  using assms
proof (induction pws arbitrary: w)
  case Nil show ?case by (simp add: tried_def opens_of_def)
next
  case (Cons c pws)
  obtain pw src where c: "c = (pw, src)" by (cases c)
  let ?w1 = "w\<lparr>open_log := open_log w @ [(p, Some pw)]\<rparr>"
  have o: "pikepdf_open lib w p (Some pw) = (parse lib content (Some pw), ?w1)"
    using Cons.prems by (simp add: pikepdf_open_eq)
  show ?case
  proof (cases "rejected lib content c")
    case True
    then obtain x where x: "parse lib content (Some pw) = Raises (PasswordError x)"
      by (auto simp: rejected_def c split: opened.splits exc.splits)
    have "prefix (open_log ?w1 @ opens_of p (tried lib content pws))
            (open_log (snd (unlock_trials lib env ?w1 p pws)))"
      by (rule Cons.IH) (use Cons.prems in simp_all)
    then show ?thesis using o x True by (simp add: c tried_def opens_of_def)
  next
    case False
    then have t: "tried lib content (c # pws) = [c]" by (simp add: tried_def)
    have "prefix (open_log ?w1) (open_log (snd (unlock_trials lib env w p (c # pws))))"
    proof (cases "parse lib content (Some pw)")
      case (Opened d)
      obtain r s2 where aw: "atomic_write env (fsys ?w1) p (save lib d) = (r, s2)"
        by (cases "atomic_write env (fsys ?w1) p (save lib d)")
      show ?thesis
      proof (cases r)
        case None
        with o Opened aw show ?thesis by (simp add: c)
      next
        case (Some x)
        have "prefix (open_log (?w1\<lparr>fsys := s2\<rparr>))
                (open_log (snd (unlock_trials lib env (?w1\<lparr>fsys := s2\<rparr>) p pws)))"
          by (rule unlock_trials_log_grows)
        with o Opened aw Some show ?thesis by (cases x) (simp_all add: c)
      qed
    next
      case (Raises x)
      with False have "\<forall>y. x \<noteq> PasswordError y"
        by (auto simp: rejected_def c)
      with o Raises show ?thesis by (cases x) (simp_all add: c)
    qed
    then show ?thesis unfolding t by (simp add: opens_of_def c)
  qed
qed

lemma unlock_trials_all_rejected:
  assumes "files (fsys w) p = Some (content, m)" "can_read m"
    and "dropWhile (rejected lib content) pws = []"
  shows "unlock_trials lib env w p pws =
           (failed_result p MSG_ALL_FAILED, w\<lparr>open_log := open_log w @ opens_of p pws\<rparr>)"
  using assms
proof (induction pws arbitrary: w)
  case Nil show ?case by (simp add: opens_of_def)
next
  case (Cons c pws)
  obtain pw src where c: "c = (pw, src)" by (cases c)
  let ?w1 = "w\<lparr>open_log := open_log w @ [(p, Some pw)]\<rparr>"
  have o: "pikepdf_open lib w p (Some pw) = (parse lib content (Some pw), ?w1)"
    using Cons.prems by (simp add: pikepdf_open_eq)
  from Cons.prems(3) have rj: "rejected lib content c"
    and rest: "dropWhile (rejected lib content) pws = []"
    by (simp_all split: if_splits)
  from rj obtain x where x: "parse lib content (Some pw) = Raises (PasswordError x)"
    by (auto simp: rejected_def c split: opened.splits exc.splits)
  have "unlock_trials lib env ?w1 p pws =
          (failed_result p MSG_ALL_FAILED, ?w1\<lparr>open_log := open_log ?w1 @ opens_of p pws\<rparr>)"
    by (rule Cons.IH) (use Cons.prems rest in simp_all)
  then show ?case using o x by (simp add: c opens_of_def)
qed

lemma unlock_trials_first_error:
  assumes "files (fsys w) p = Some (content, m)" "can_read m"
    and "dropWhile (rejected lib content) pws = c # rest"
    and "parse lib content (Some (fst c)) = Raises e"
  shows "unlock_trials lib env w p pws =
           (failed_result p (MSG_PROCESSING @ exc_str e),
            w\<lparr>open_log := open_log w @ opens_of p (tried lib content pws)\<rparr>)"
  using assms
proof (induction pws arbitrary: w)
  case Nil then show ?case by simp
next
  case (Cons a pws)
  obtain pw src where a: "a = (pw, src)" by (cases a)
  let ?w1 = "w\<lparr>open_log := open_log w @ [(p, Some pw)]\<rparr>"
  have o: "pikepdf_open lib w p (Some pw) = (parse lib content (Some pw), ?w1)"
    using Cons.prems by (simp add: pikepdf_open_eq)
  show ?case
  proof (cases "rejected lib content a")
    case True
    then obtain x where x: "parse lib content (Some pw) = Raises (PasswordError x)"
      by (auto simp: rejected_def a split: opened.splits exc.splits)
    from True Cons.prems(3) have rest: "dropWhile (rejected lib content) pws = c # rest"
      by simp
    have "unlock_trials lib env ?w1 p pws =
            (failed_result p (MSG_PROCESSING @ exc_str e),
             ?w1\<lparr>open_log := open_log ?w1 @ opens_of p (tried lib content pws)\<rparr>)"
      by (rule Cons.IH) (use Cons.prems rest in simp_all)
    then show ?thesis using o x True by (simp add: a tried_def opens_of_def)
  next
    case False
    with Cons.prems(3) have ca: "c = a" by simp
    from False have t: "tried lib content (a # pws) = [a]" by (simp add: tried_def)
    from Cons.prems(4) ca have pe: "parse lib content (Some pw) = Raises e" by (simp add: a)
    with False have "\<forall>y. e \<noteq> PasswordError y" by (auto simp: rejected_def a)
    with o pe show ?thesis unfolding t by (cases e) (simp_all add: a opens_of_def)
  qed
qed

text \<open>
  Counterexample to claim C6 as stated: a file the process may not read. The open
  without credential raises a permission error, which is not the wrong-password signal,
  and the file is classified as protected; the copy of the backup cannot read it either,
  so \<open>unlock_file\<close> returns \<open>FAILED\<close> with the cause of the backup and the log holds the
  classifying open alone: none of the two credentials is tried.
\<close>

theorem unreadable_file_fails_in_backup_without_trials:
  "fst (pikepdf_open toy_pdf example_world [''d'', ''u.pdf''] None)
     = Raises (os_error EACCES [''d'', ''u.pdf'']) \<and>
   fst (is_pdf_encrypted toy_pdf example_world [''d'', ''u.pdf'']) = Inr True \<and>
   status (fst (unlock_file toy_pdf example_env example_world [''d'', ''u.pdf''] wordlist_pairs
     BACKUP_DIR)) = FAILED \<and>
   error_message (fst (unlock_file toy_pdf example_env example_world [''d'', ''u.pdf'']
     wordlist_pairs BACKUP_DIR))
     = Some (MSG_BACKUP @ exc_str (os_error EACCES [''d'', ''u.pdf''])) \<and>
   open_log (snd (unlock_file toy_pdf example_env example_world [''d'', ''u.pdf'']
     wordlist_pairs BACKUP_DIR)) = [([''d'', ''u.pdf''], None)]"
  by (simp add: run_defs fs_defs example_defs)

text \<open>
  Claim C6, amended. \<open>is_pdf_encrypted\<close> returns a boolean on every input and never
  raises, so neither \<open>unlock_file\<close> nor \<open>try_unlock_dry_run\<close> ever returns the message
  \<open>Error checking if PDF is encrypted\<close>: that branch cannot be reached. When the open
  without credential raises, whatever the exception, the file is classified as protected
  and \<open>unlock_file\<close> goes on to the backup. When the backup raises (as it does for a
  file that cannot be read or is missing), the result is \<open>FAILED\<close> with the cause of the
  backup and no credential is tried. When the backup returns, the backup path holds the
  entry of the source (or is a directory that received it), and the credentials are
  opened in order up to the first that is not rejected as a wrong password; if all are
  rejected the result is \<open>FAILED\<close> with \<open>All passwords failed\<close>, and if the open with the
  first credential not rejected raises, the result is \<open>FAILED\<close> with that error, in
  both cases with the store the backup left and nothing opened beyond those credentials.
\<close>

theorem classification_error_proceeds_to_backup:
  "(\<exists>b. fst (is_pdf_encrypted lib w p) = Inr b) \<and>
   error_message (fst (unlock_file lib env w p pws bdn)) \<noteq> Some (MSG_CHECK @ msg) \<and>
   error_message (fst (try_unlock_dry_run lib w p pws bdn)) \<noteq> Some (MSG_CHECK @ msg) \<and>
   (\<forall>e. fst (pikepdf_open lib w p None) = Raises e \<longrightarrow>
      fst (is_pdf_encrypted lib w p) = Inr True \<and>
      (\<forall>e' s1. create_backup (fsys w) p bdn = (Inl e', s1) \<longrightarrow>
         unlock_file lib env w p pws bdn =
           (failed_result p (MSG_BACKUP @ exc_str e'),
            \<lparr>fsys = s1, open_log = open_log w @ [(p, None)]\<rparr>)) \<and>
      (\<forall>bp s1 content m.
         create_backup (fsys w) p bdn = (Inr bp, s1) \<and> files (fsys w) p = Some (content, m) \<longrightarrow>
           (files s1 bp = Some (content, m) \<or> is_dir s1 bp) \<and>
           prefix (open_log w @ (p, None) # opens_of p (tried lib content pws))
             (open_log (snd (unlock_file lib env w p pws bdn))) \<and>
           (dropWhile (rejected lib content) pws = [] \<longrightarrow>
              unlock_file lib env w p pws bdn =
                (failed_result p MSG_ALL_FAILED,
                 \<lparr>fsys = s1, open_log = open_log w @ (p, None) # opens_of p pws\<rparr>)) \<and>
           (\<forall>c rest e'.
              dropWhile (rejected lib content) pws = c # rest \<and>
              parse lib content (Some (fst c)) = Raises e' \<longrightarrow>
                unlock_file lib env w p pws bdn =
                  (failed_result p (MSG_PROCESSING @ exc_str e'),
                   \<lparr>fsys = s1,
                    open_log = open_log w @ (p, None) # opens_of p (tried lib content pws)\<rparr>))))"
proof (intro conjI allI impI)
  show "\<exists>b. fst (is_pdf_encrypted lib w p) = Inr b"
    using is_pdf_encrypted_total[of lib w p] by auto
  show "error_message (fst (unlock_file lib env w p pws bdn)) \<noteq> Some (MSG_CHECK @ msg)"
    by (rule unlock_file_never_check_error)
  show "error_message (fst (try_unlock_dry_run lib w p pws bdn)) \<noteq> Some (MSG_CHECK @ msg)"
    by (rule try_unlock_dry_run_never_check_error)
next
  fix e assume r: "fst (pikepdf_open lib w p None) = Raises e"
  from is_pdf_encrypted_Raises[OF r]
  show "fst (is_pdf_encrypted lib w p) = Inr True" by simp
next
  fix e e' s1
  assume r: "fst (pikepdf_open lib w p None) = Raises e"
    and cb: "create_backup (fsys w) p bdn = (Inl e', s1)"
  from is_pdf_encrypted_Raises[OF r] cb
  show "unlock_file lib env w p pws bdn =
           (failed_result p (MSG_BACKUP @ exc_str e'),
            \<lparr>fsys = s1, open_log = open_log w @ [(p, None)]\<rparr>)"
    by (simp add: unlock_file_def backup_and_trials_def)
next
  fix e bp s1 content m
  assume r: "fst (pikepdf_open lib w p None) = Raises e"
    and h: "create_backup (fsys w) p bdn = (Inr bp, s1) \<and> files (fsys w) p = Some (content, m)"
  then have cb: "create_backup (fsys w) p bdn = (Inr bp, s1)"
    and src: "files (fsys w) p = Some (content, m)" by simp_all
  from create_backup_made[OF cb src]
  show "files s1 bp = Some (content, m) \<or> is_dir s1 bp" .
  let ?w2 = "\<lparr>fsys = s1, open_log = open_log w @ [(p, None)]\<rparr>"
  have w2: "w\<lparr>open_log := open_log w @ [(p, None)], fsys := s1\<rparr> = ?w2"
    by (cases w) simp
  have uf: "unlock_file lib env w p pws bdn = unlock_trials lib env ?w2 p pws"
    using is_pdf_encrypted_Raises[OF r] cb
    by (simp add: unlock_file_def backup_and_trials_def w2)
  have src2: "files (fsys ?w2) p = Some (content, m)"
    using create_backup_keeps[OF cb] src by simp
  have rd: "can_read m"
    using create_backup_source[OF cb] src by auto
  from unlock_trials_tried[OF src2 rd, of lib pws env]
  show "prefix (open_log w @ (p, None) # opens_of p (tried lib content pws))
          (open_log (snd (unlock_file lib env w p pws bdn)))"
    by (simp add: uf)
  {
    assume "dropWhile (rejected lib content) pws = []"
    from unlock_trials_all_rejected[OF src2 rd this, of env]
    show "unlock_file lib env w p pws bdn =
            (failed_result p MSG_ALL_FAILED,
             \<lparr>fsys = s1, open_log = open_log w @ (p, None) # opens_of p pws\<rparr>)"
      by (simp add: uf)
  }
  {
    fix c rest e'
    assume "dropWhile (rejected lib content) pws = c # rest \<and>
            parse lib content (Some (fst c)) = Raises e'"
    then have d: "dropWhile (rejected lib content) pws = c # rest"
      and pe: "parse lib content (Some (fst c)) = Raises e'" by simp_all
    from unlock_trials_first_error[OF src2 rd d pe, of env]
    show "unlock_file lib env w p pws bdn =
            (failed_result p (MSG_PROCESSING @ exc_str e'),
             \<lparr>fsys = s1,
              open_log = open_log w @ (p, None) # opens_of p (tried lib content pws)\<rparr>)"
      by (simp add: uf)
  }
qed

text \<open>
  The theorem at work on three files of the example directory: the malformed \<open>c.pdf\<close>,
  whose backup is made and whose first credential ends the run with the error of the
  open; the protected \<open>b.pdf\<close> with two wrong credentials, both tried after the backup;
  and the unreadable \<open>u.pdf\<close>, which fails in the backup with nothing tried.
\<close>

theorem classification_error_proceeds_to_backup_witness:
  "fst (pikepdf_open toy_pdf example_world [''d'', ''c.pdf''] None)
     = Raises (OtherException ''not a PDF'') \<and>
   fst (is_pdf_encrypted toy_pdf example_world [''d'', ''c.pdf'']) = Inr True \<and>
   fst (create_backup (fsys example_world) [''d'', ''c.pdf''] BACKUP_DIR)
     = Inr [''d'', ''pdf_with_password'', ''c.pdf''] \<and>
   files (snd (create_backup (fsys example_world) [''d'', ''c.pdf''] BACKUP_DIR))
     [''d'', ''pdf_with_password'', ''c.pdf''] = Some ([2, 7], rw) \<and>
   unlock_file toy_pdf example_env example_world [''d'', ''c.pdf''] wordlist_pairs BACKUP_DIR =
     (failed_result [''d'', ''c.pdf''] (MSG_PROCESSING @ ''not a PDF''),
      \<lparr>fsys = snd (create_backup (fsys example_world) [''d'', ''c.pdf''] BACKUP_DIR),
       open_log = [([''d'', ''c.pdf''], None), ([''d'', ''c.pdf''], Some [119])]\<rparr>) \<and>
   fst (pikepdf_open toy_pdf example_world [''d'', ''b.pdf''] None)
     = Raises (PasswordError ''invalid password'') \<and>
   unlock_file toy_pdf example_env example_world [''d'', ''b.pdf''] wrong_pairs BACKUP_DIR =
     (failed_result [''d'', ''b.pdf''] MSG_ALL_FAILED,
      \<lparr>fsys = snd (create_backup (fsys example_world) [''d'', ''b.pdf''] BACKUP_DIR),
       open_log = [([''d'', ''b.pdf''], None), ([''d'', ''b.pdf''], Some [119]),
                   ([''d'', ''b.pdf''], Some [120])]\<rparr>) \<and>
   fst (pikepdf_open toy_pdf example_world [''d'', ''u.pdf''] None)
     = Raises (os_error EACCES [''d'', ''u.pdf'']) \<and>
   unlock_file toy_pdf example_env example_world [''d'', ''u.pdf''] wordlist_pairs BACKUP_DIR =
     (failed_result [''d'', ''u.pdf'']
        (MSG_BACKUP @ exc_str (os_error EACCES [''d'', ''u.pdf''])),
      \<lparr>fsys = snd (create_backup (fsys example_world) [''d'', ''u.pdf''] BACKUP_DIR),
       open_log = [([''d'', ''u.pdf''], None)]\<rparr>)"
proof -
  let ?c = "[''d'', ''c.pdf'']" and ?b = "[''d'', ''b.pdf'']" and ?u = "[''d'', ''u.pdf'']"
  have lg: "open_log example_world = []" by (simp add: example_world_def)
  have oc: "fst (pikepdf_open toy_pdf example_world ?c None)
              = Raises (OtherException ''not a PDF'')"
    by (simp add: run_defs fs_defs example_defs)
  have ob: "fst (pikepdf_open toy_pdf example_world ?b None)
              = Raises (PasswordError ''invalid password'')"
    by (simp add: run_defs fs_defs example_defs)
  have ou: "fst (pikepdf_open toy_pdf example_world ?u None) = Raises (os_error EACCES ?u)"
    by (simp add: run_defs fs_defs example_defs)
  have fc: "fst (create_backup (fsys example_world) ?c BACKUP_DIR)
              = Inr [''d'', ''pdf_with_password'', ''c.pdf'']"
    by (simp add: run_defs fs_defs example_defs)
  have fb: "fst (create_backup (fsys example_world) ?b BACKUP_DIR)
              = Inr [''d'', ''pdf_with_password'', ''b.pdf'']"
    by (simp add: run_defs fs_defs example_defs)
  have fu: "fst (create_backup (fsys example_world) ?u BACKUP_DIR) = Inl (os_error EACCES ?u)"
    by (simp add: run_defs fs_defs example_defs)
  have cbc: "create_backup (fsys example_world) ?c BACKUP_DIR =
               (Inr [''d'', ''pdf_with_password'', ''c.pdf''],
                snd (create_backup (fsys example_world) ?c BACKUP_DIR)) \<and>
             files (fsys example_world) ?c = Some ([2, 7], rw)"
    using fc by (simp add: prod_eq_iff example_world_def example_fs_def)
  have cbb: "create_backup (fsys example_world) ?b BACKUP_DIR =
               (Inr [''d'', ''pdf_with_password'', ''b.pdf''],
                snd (create_backup (fsys example_world) ?b BACKUP_DIR)) \<and>
             files (fsys example_world) ?b = Some ([1, 7], rw)"
    using fb by (simp add: prod_eq_iff example_world_def example_fs_def)
  have cbu: "create_backup (fsys example_world) ?u BACKUP_DIR =
               (Inl (os_error EACCES ?u),
                snd (create_backup (fsys example_world) ?u BACKUP_DIR))"
    using fu by (simp add: prod_eq_iff)
  have dc: "dropWhile (rejected toy_pdf [2, 7]) wordlist_pairs
              = ([119], ''dictionary'') # [([115], ''dictionary'')] \<and>
            parse toy_pdf [2, 7] (Some (fst ([119 :: nat], ''dictionary'')))
              = Raises (OtherException ''not a PDF'')"
    by (simp add: rejected_def toy_pdf_def wordlist_pairs_def)
  have tc: "tried toy_pdf [2, 7] wordlist_pairs = [([119], ''dictionary'')]"
    by (simp add: tried_def rejected_def toy_pdf_def wordlist_pairs_def)
  have db: "dropWhile (rejected toy_pdf [1, 7]) wrong_pairs = []"
    by (simp add: rejected_def toy_pdf_def wrong_pairs_def)
  note Tc = classification_error_proceeds_to_backup
      [of toy_pdf example_world ?c example_env wordlist_pairs BACKUP_DIR "[]",
       THEN conjunct2, THEN conjunct2, THEN conjunct2, THEN spec, THEN mp, OF oc]
  note Tb = classification_error_proceeds_to_backup
      [of toy_pdf example_world ?b example_env wrong_pairs BACKUP_DIR "[]",
       THEN conjunct2, THEN conjunct2, THEN conjunct2, THEN spec, THEN mp, OF ob]
  note Tu = classification_error_proceeds_to_backup
      [of toy_pdf example_world ?u example_env wordlist_pairs BACKUP_DIR "[]",
       THEN conjunct2, THEN conjunct2, THEN conjunct2, THEN spec, THEN mp, OF ou]
  note Tc4 = Tc[THEN conjunct2, THEN conjunct2, THEN spec, THEN spec, THEN spec, THEN spec,
       THEN mp, OF cbc]
  note Tb4 = Tb[THEN conjunct2, THEN conjunct2, THEN spec, THEN spec, THEN spec, THEN spec,
       THEN mp, OF cbb]
  have enc: "fst (is_pdf_encrypted toy_pdf example_world ?c) = Inr True"
    using Tc by (rule conjunct1)
  have made: "files (snd (create_backup (fsys example_world) ?c BACKUP_DIR))
                [''d'', ''pdf_with_password'', ''c.pdf''] = Some ([2, 7], rw)"
    using Tc4[THEN conjunct1]
    by (simp add: run_defs fs_defs example_defs)
  have rc: "unlock_file toy_pdf example_env example_world ?c wordlist_pairs BACKUP_DIR =
     (failed_result ?c (MSG_PROCESSING @ ''not a PDF''),
      \<lparr>fsys = snd (create_backup (fsys example_world) ?c BACKUP_DIR),
       open_log = [(?c, None), (?c, Some [119])]\<rparr>)"
    using Tc4[THEN conjunct2, THEN conjunct2, THEN conjunct2, THEN spec, THEN spec, THEN spec,
       THEN mp, OF dc]
    unfolding tc lg opens_of_def by simp
  have rb: "unlock_file toy_pdf example_env example_world ?b wrong_pairs BACKUP_DIR =
     (failed_result ?b MSG_ALL_FAILED,
      \<lparr>fsys = snd (create_backup (fsys example_world) ?b BACKUP_DIR),
       open_log = [(?b, None), (?b, Some [119]), (?b, Some [120])]\<rparr>)"
    using Tb4[THEN conjunct2, THEN conjunct2, THEN conjunct1, THEN mp, OF db]
    unfolding lg opens_of_def wrong_pairs_def by simp
  have ru: "unlock_file toy_pdf example_env example_world ?u wordlist_pairs BACKUP_DIR =
     (failed_result ?u (MSG_BACKUP @ exc_str (os_error EACCES ?u)),
      \<lparr>fsys = snd (create_backup (fsys example_world) ?u BACKUP_DIR),
       open_log = [(?u, None)]\<rparr>)"
    using Tu[THEN conjunct2, THEN conjunct1, THEN spec, THEN spec, THEN mp, OF cbu]
    unfolding lg by simp
  from oc enc fc made rc ob rb ou ru show ?thesis by (intro conjI)
qed

text \<open>
  With the same bytes behind the path, and every save succeeding, the two trial loops
  give the same result.
\<close>

lemma trials_agree:
  assumes "files (fsys w) p = Some (content, m)" "files (fsys w') p = Some (content, m)"
    and "saves_succeed lib env (fsys w) p pws" and "can_read m"
  shows "fst (unlock_trials lib env w p pws) = fst (dry_run_trials lib w' p pws)"
  using assms
proof (induction pws arbitrary: w w')
  case Nil
  show ?case by simp
next
  case (Cons c pws)
  obtain pw src where c: "c = (pw, src)" by (cases c)
  let ?w1 = "w\<lparr>open_log := open_log w @ [(p, Some pw)]\<rparr>"
  let ?w1' = "w'\<lparr>open_log := open_log w' @ [(p, Some pw)]\<rparr>"
  have o: "pikepdf_open lib w p (Some pw) = (parse lib content (Some pw), ?w1)"
    and o': "pikepdf_open lib w' p (Some pw) = (parse lib content (Some pw), ?w1')"
    using Cons.prems by (simp_all add: pikepdf_open_eq)
  have rest: "saves_succeed lib env (fsys ?w1) p pws"
    using Cons.prems(3) by (simp add: saves_succeed_def)
  show ?case
  proof (cases "parse lib content (Some pw)")
    case (Opened d)
    have "fst (atomic_write env (fsys w) p (save lib d)) = None"
      using Cons.prems(1,3) Opened by (simp add: saves_succeed_def c)
    then obtain s2 where "atomic_write env (fsys w) p (save lib d) = (None, s2)"
      by (cases "atomic_write env (fsys w) p (save lib d)") simp
    then show ?thesis using o o' Opened by (simp add: c)
  next
    case (Raises e)
    show ?thesis
    proof (cases e)
      case (PasswordError x)
      have "fst (unlock_trials lib env ?w1 p pws) = fst (dry_run_trials lib ?w1' p pws)"
        by (rule Cons.IH) (use Cons.prems rest in simp_all)
      then show ?thesis using o o' Raises PasswordError by (simp add: c)
    next
      case (OSError x)
      then show ?thesis using o o' Raises by (simp add: c)
    next
      case (OtherException x)
      then show ?thesis using o o' Raises by (simp add: c)
    qed
  qed
qed

lemma dry_run_trials_fsys: "fsys (snd (dry_run_trials lib w p pws)) = fsys w"
proof (induction pws arbitrary: w)
  case Nil show ?case by simp
next
  case (Cons c pws)
  obtain pw src where c: "c = (pw, src)" by (cases c)
  have o: "pikepdf_open lib w p (Some pw) =
      (fst (pikepdf_open lib w p (Some pw)), w\<lparr>open_log := open_log w @ [(p, Some pw)]\<rparr>)"
    by (rule pikepdf_open_pair)
  show ?case
  proof (cases "fst (pikepdf_open lib w p (Some pw))")
    case (Opened d)
    with o show ?thesis by (simp add: c)
  next
    case (Raises e)
    with o Cons.IH[of "w\<lparr>open_log := open_log w @ [(p, Some pw)]\<rparr>"] show ?thesis
      by (cases e) (simp_all add: c)
  qed
qed

lemma try_unlock_dry_run_fsys: "fsys (snd (try_unlock_dry_run lib w p pws bdn)) = fsys w"
proof -
  obtain b where b: "is_pdf_encrypted lib w p = (Inr b, w\<lparr>open_log := open_log w @ [(p, None)]\<rparr>)"
    using is_pdf_encrypted_total by blast
  show ?thesis
  proof (cases b)
    case False
    with b show ?thesis by (simp add: try_unlock_dry_run_def)
  next
    case True
    with b show ?thesis
      by (cases "validate_backup_path_no_side_effects (fsys w) p bdn")
         (simp_all add: try_unlock_dry_run_def validate_and_trials_def dry_run_trials_fsys)
  qed
qed

lemma faithful_agree:
  assumes "dry_run_faithful lib env w p pws bdn"
  shows "fst (try_unlock_dry_run lib w p pws bdn) = fst (unlock_file lib env w p pws bdn)"
proof (cases "fst (pikepdf_open lib w p None)")
  case (Opened d)
  from is_pdf_encrypted_Opened[OF this] show ?thesis
    by (simp add: unlock_file_def try_unlock_dry_run_def)
next
  case (Raises e)
  let ?w1 = "w\<lparr>open_log := open_log w @ [(p, None)]\<rparr>"
  from assms Raises have nse: "returns (validate_backup_path_no_side_effects (fsys w) p bdn)"
    and cb: "returns (fst (create_backup (fsys w) p bdn))"
    and sv: "saves_succeed lib env (snd (create_backup (fsys w) p bdn)) p pws"
    by (simp_all add: dry_run_faithful_def)
  from nse obtain bp0 where nse': "validate_backup_path_no_side_effects (fsys w) p bdn = Inr bp0"
    by (cases "validate_backup_path_no_side_effects (fsys w) p bdn") (simp_all add: returns_def)
  obtain r s1 where c: "create_backup (fsys w) p bdn = (r, s1)"
    by (cases "create_backup (fsys w) p bdn")
  with cb obtain bp where r: "r = Inr bp" by (cases r) (simp_all add: returns_def)
  from create_backup_source[OF c[unfolded r]] obtain content m
    where src: "files (fsys w) p = Some (content, m)" and rd: "can_read m" by blast
  have src1: "files s1 p = Some (content, m)"
    using create_backup_keeps[OF c] src by simp
  have "fst (unlock_trials lib env (?w1\<lparr>fsys := s1\<rparr>) p pws) = fst (dry_run_trials lib ?w1 p pws)"
    by (rule trials_agree[where content = content and m = m])
       (use src src1 sv c rd in simp_all)
  then show ?thesis
    using is_pdf_encrypted_Raises[OF Raises] nse' c r
    by (simp add: unlock_file_def try_unlock_dry_run_def backup_and_trials_def
          validate_and_trials_def)
qed

text \<open>
  Counterexample to claim C5 as stated: the dry run cannot know that the save will fail. On the
  protected \<open>b.pdf\<close> of the example, with a disk that is full when the temporary file is
  flushed, \<open>unlock_file\<close> opens the file with the second credential, fails to save and
  returns \<open>FAILED\<close>, while \<open>try_unlock_dry_run\<close> returns \<open>UNLOCKED\<close>.
\<close>

theorem dry_run_differs_when_save_fails:
  "status (fst (unlock_file toy_pdf full_disk_env example_world [''d'', ''b.pdf''] wordlist_pairs
     BACKUP_DIR)) = FAILED \<and>
   error_message (fst (unlock_file toy_pdf full_disk_env example_world [''d'', ''b.pdf'']
     wordlist_pairs BACKUP_DIR))
     = Some (MSG_PROCESSING @ ''[Errno 28] No space left on device'') \<and>
   status (fst (try_unlock_dry_run toy_pdf example_world [''d'', ''b.pdf''] wordlist_pairs
     BACKUP_DIR)) = UNLOCKED \<and>
   method_used (fst (try_unlock_dry_run toy_pdf example_world [''d'', ''b.pdf''] wordlist_pairs
     BACKUP_DIR)) = Some ''dictionary''"
  by (simp add: run_defs fs_defs example_defs)

text \<open>
  The two backup checks differ as well. For a path with no file behind it the real run
  fails in the copy of the backup, while the dry run passes its check and fails in the
  first trial; the tests of the repository expect these two messages.
\<close>

lemma dry_run_differs_on_missing_file:
  "error_message (fst (unlock_file toy_pdf example_env example_world [''d'', ''missing.pdf'']
     wordlist_pairs BACKUP_DIR))
     = Some (MSG_BACKUP @ exc_str (os_error ENOENT [''d'', ''missing.pdf''])) \<and>
   error_message (fst (try_unlock_dry_run toy_pdf example_world [''d'', ''missing.pdf'']
     wordlist_pairs BACKUP_DIR))
     = Some (MSG_PROCESSING @ exc_str (os_error ENOENT [''d'', ''missing.pdf'']))"
  by (simp add: run_defs fs_defs example_defs)

text \<open>
  Claim C5, amended. \<open>try_unlock_dry_run\<close> never changes the store. It returns the
  result of \<open>unlock_file\<close> (status, origin, message) whenever the file opens without
  credential, and whenever the check without side effects and the real backup both
  succeed and every save started by an accepted credential of the sequence succeeds.
\<close>

theorem dry_run_agrees_when_backup_and_save_succeed:
  "fsys (snd (try_unlock_dry_run lib w p pws bdn)) = fsys w \<and>
   (dry_run_faithful lib env w p pws bdn \<longrightarrow>
      fst (try_unlock_dry_run lib w p pws bdn) = fst (unlock_file lib env w p pws bdn))"
  using try_unlock_dry_run_fsys faithful_agree by blast

text \<open>
  The protected \<open>b.pdf\<close> of the example with a wrong and the right credential: both runs
  return \<open>UNLOCKED\<close> with the origin of the second credential, and the dry run leaves
  the store without a backup directory.
\<close>

theorem dry_run_agrees_when_backup_and_save_succeed_witness:
  "dry_run_faithful toy_pdf example_env example_world [''d'', ''b.pdf''] wordlist_pairs BACKUP_DIR \<and>
   fst (try_unlock_dry_run toy_pdf example_world [''d'', ''b.pdf''] wordlist_pairs BACKUP_DIR)
     = fst (unlock_file toy_pdf example_env example_world [''d'', ''b.pdf''] wordlist_pairs
         BACKUP_DIR) \<and>
   fst (try_unlock_dry_run toy_pdf example_world [''d'', ''b.pdf''] wordlist_pairs BACKUP_DIR)
     = unlocked_result [''d'', ''b.pdf''] ''dictionary'' \<and>
   fsys (snd (try_unlock_dry_run toy_pdf example_world [''d'', ''b.pdf''] wordlist_pairs
     BACKUP_DIR)) = example_fs"
proof -
  have h: "dry_run_faithful toy_pdf example_env example_world [''d'', ''b.pdf''] wordlist_pairs
      BACKUP_DIR"
    by (simp add: dry_run_faithful_def saves_succeed_def returns_def run_defs fs_defs
          example_defs)
  have r: "fst (try_unlock_dry_run toy_pdf example_world [''d'', ''b.pdf''] wordlist_pairs
      BACKUP_DIR) = unlocked_result [''d'', ''b.pdf''] ''dictionary''"
    by (simp add: run_defs fs_defs example_defs)
  from dry_run_agrees_when_backup_and_save_succeed[of toy_pdf example_world "[''d'', ''b.pdf'']"
      wordlist_pairs BACKUP_DIR example_env] h r
  show ?thesis by (simp add: example_world_def)
qed

section \<open>Properties of \<open>cli.py\<close>\<close>







section \<open>Properties of \<open>passwords.py\<close>\<close>

subsection \<open>Keeping the first of each secret\<close>

lemma set_first_wins: "fst ` set (first_wins cs) = fst ` set cs"
proof (induction cs)
  case Nil show ?case by simp
next
  case (Cons c cs)
  have "fst ` set (filter (\<lambda>d. fst d \<noteq> fst c) (first_wins cs)) = fst ` set (first_wins cs) - {fst c}"
    by force
  then show ?case using Cons.IH by auto
qed

lemma first_wins_subset: "set (first_wins cs) \<subseteq> set cs"
  by (induction cs) auto

lemma first_wins_snoc:
  "first_wins (cs @ [c]) = (if fst c \<in> fst ` set cs then first_wins cs else first_wins cs @ [c])"
  by (induction cs) (auto simp: set_first_wins)

lemma distinct_first_wins: "distinct (map fst (first_wins cs))"
proof (induction cs)
  case Nil show ?case by simp
next
  case (Cons c cs)
  have "distinct (map fst (filter (\<lambda>d. fst d \<noteq> fst c) (first_wins cs)))"
    using Cons.IH by (simp add: distinct_map_filter)
  then show ?case by auto
qed

subsection \<open>The generator keeps its invariant\<close>

lemma tracks_init: "tracks ({}, []) []"
  by (simp add: tracks_def)

lemma tracks_step:
  "tracks st cs \<Longrightarrow>
   tracks (if s \<notin> fst st then (insert s (fst st), snd st @ [(s, lbl)]) else st) (cs @ [(s, lbl)])"
  by (cases st) (auto simp: tracks_def first_wins_snoc)

lemma tracks_single: "tracks st cs \<Longrightarrow> tracks (yield_single single st) (cs @ single_source single)"
  by (cases st)
     (auto simp: tracks_def yield_single_def single_source_def first_wins_snoc split: option.splits)

lemma tracks_dictionary:
  "tracks st cs \<Longrightarrow> tracks (yield_dictionary st ps) (cs @ map (\<lambda>p. (p, ''dictionary'')) ps)"
proof (induction ps arbitrary: st cs)
  case Nil then show ?case by simp
next
  case (Cons p ps)
  obtain seen out where st: "st = (seen, out)" by (cases st)
  let ?c = "(p, ''dictionary'')"
  have "tracks (if p \<notin> seen then (insert p seen, out @ [?c]) else (seen, out)) (cs @ [?c])"
    using Cons.prems by (auto simp: tracks_def st first_wins_snoc)
  from Cons.IH[OF this] show ?case by (cases "p \<in> seen") (simp_all add: st)
qed

lemma tracks_wordlist:
  "tracks st cs \<Longrightarrow> \<forall>e. dp \<noteq> Some (Unreadable e) \<Longrightarrow>
   tracks (case dp of
             Some (Readable decoded) \<Rightarrow> yield_dictionary st (iter_from_dictionary nfkc decoded)
           | _ \<Rightarrow> st)
     (cs @ wordlist_source nfkc dp)"
  by (auto simp: wordlist_source_def tracks_dictionary split: option.splits dict_file.splits)

lemma tracks_environment:
  assumes "tracks st cs"
  shows "tracks (yield_environment env st) (cs @ environment_source env)"
proof (cases "environment_value env")
  case None
  then have "yield_environment env st = st" "environment_source env = []"
    by (auto simp: yield_environment_def environment_source_def environment_value_def
          split: option.splits)
  with assms show ?thesis by simp
next
  case (Some v)
  then obtain m where m0: "env = Some m" "map_of m ENV_KEY = Some v"
    by (cases env) (auto simp: environment_value_def)
  then have "m \<noteq> []" by auto
  note m = m0 this
  show ?thesis
  proof (cases "v = []")
    case True
    then have "yield_environment env st = st" "environment_source env = []"
      using m Some by (auto simp: yield_environment_def environment_source_def)
    with assms show ?thesis by simp
  next
    case False
    then have "yield_environment env st =
        (if v \<notin> fst st then (insert v (fst st), snd st @ [(v, ''environment'')]) else st)"
      and "environment_source env = [(v, ''environment'')]"
      using m Some by (auto simp: yield_environment_def environment_source_def)
    with tracks_step[OF assms, of v "''environment''"] show ?thesis by simp
  qed
qed

lemma tracks_empty: "tracks st cs \<Longrightarrow> tracks (yield_empty te st) (cs @ empty_source te)"
  by (cases st) (auto simp: tracks_def yield_empty_def empty_source_def first_wins_snoc)

lemma iter_passwords_readable:
  assumes "\<forall>e. dp \<noteq> Some (Unreadable e)"
  shows "iter_passwords nfkc single dp env te =
           (None, first_wins (priority_candidates nfkc single dp env te))"
proof -
  let ?st1 = "yield_single single ({}, [])"
  let ?st2 = "case dp of
                Some (Readable decoded) \<Rightarrow> yield_dictionary ?st1 (iter_from_dictionary nfkc decoded)
              | _ \<Rightarrow> ?st1"
  have 1: "tracks ?st1 (single_source single)"
    using tracks_single[OF tracks_init] by simp
  have 2: "tracks ?st2 (single_source single @ wordlist_source nfkc dp)"
    using tracks_wordlist[OF 1 assms] .
  have 3: "tracks (yield_environment env ?st2)
             ((single_source single @ wordlist_source nfkc dp) @ environment_source env)"
    using tracks_environment[OF 2] .
  have 4: "tracks (yield_empty te (yield_environment env ?st2))
             (((single_source single @ wordlist_source nfkc dp) @ environment_source env)
                @ empty_source te)"
    using tracks_empty[OF 3] .
  have "iter_passwords nfkc single dp env te =
          (None, snd (yield_empty te (yield_environment env ?st2)))"
    using assms by (simp add: iter_passwords_def Let_def split: option.splits dict_file.splits)
  then show ?thesis using 4 by (simp add: tracks_def priority_candidates_def)
qed

lemma iter_passwords_unreadable:
  "iter_passwords nfkc single (Some (Unreadable e)) env te =
     (Some e, first_wins (single_source single))"
  using tracks_single[OF tracks_init, of single]
  by (simp add: iter_passwords_def tracks_def)

text \<open>
  Counterexample to claim C4 as stated: with the environment variable set to the empty
  string and \<open>try_empty\<close> on, the empty secret stands under the sources environment and
  empty; the claim gives it the label of the earlier source, the generator yields it
  with the label \<open>empty\<close>. With \<open>try_empty\<close> off the environment value is not listed at
  all.
\<close>

theorem empty_environment_value_is_skipped:
  "snd (iter_passwords id None None (Some [(ENV_KEY, [])]) True) = [([], ''empty'')] \<and>
   first_wins (claimed_candidates id None None (Some [(ENV_KEY, [])]) True)
     = [([], ''environment'')] \<and>
   snd (iter_passwords id None None (Some [(ENV_KEY, [])]) False) = [] \<and>
   first_wins (claimed_candidates id None None (Some [(ENV_KEY, [])]) False)
     = [([], ''environment'')]"
  by (simp add: iter_passwords_def yield_single_def yield_environment_def yield_empty_def
        claimed_candidates_def single_source_def wordlist_source_def
        claimed_environment_source_def environment_value_def empty_source_def)

text \<open>
  Claim C4, amended. For every combination of the sources, with an empty environment
  value counted as absent (as a missing or unreadable wordlist yields no wordlist
  entries): the generator yields the candidates in the order single, wordlist entries in
  file order, environment, empty string, each secret once, with the label of the first
  source that has it; no two pairs yielded have the same secret. When opening the
  wordlist raises, the generator ends with that exception after the single credential.
\<close>

theorem iter_passwords_priority_first_wins:
  "iter_passwords nfkc single dictionary_path env try_empty =
     (case dictionary_path of
        Some (Unreadable e) \<Rightarrow> (Some e, first_wins (single_source single))
      | _ \<Rightarrow> (None, first_wins (priority_candidates nfkc single dictionary_path env try_empty)))
   \<and> distinct (map fst (snd (iter_passwords nfkc single dictionary_path env try_empty)))"
proof -
  have eq: "iter_passwords nfkc single dictionary_path env try_empty =
     (case dictionary_path of
        Some (Unreadable e) \<Rightarrow> (Some e, first_wins (single_source single))
      | _ \<Rightarrow> (None, first_wins (priority_candidates nfkc single dictionary_path env try_empty)))"
  proof (cases "\<exists>e. dictionary_path = Some (Unreadable e)")
    case True
    then show ?thesis by (auto simp: iter_passwords_unreadable)
  next
    case False
    then have "\<forall>e. dictionary_path \<noteq> Some (Unreadable e)" by simp
    from iter_passwords_readable[OF this] show ?thesis
      using False by (auto split: option.splits dict_file.splits)
  qed
  have "distinct (map fst (snd (iter_passwords nfkc single dictionary_path env try_empty)))"
    unfolding eq by (auto simp: distinct_first_wins split: option.splits dict_file.splits)
  with eq show ?thesis by blast
qed

lemmas text_defs = file_lines_def utf8_sig_def BOM_def CR_def LF_def HASH_def rstrip_crlf_def
  py_strip_def py_lstrip_def py_isspace_def startswith_hash_def iter_from_dictionary_def Let_def

text \<open>
  The single credential \<open>a\<close>, a wordlist with the lines \<open>a\<close>, \<open>b\<close>, \<open>a\<close>, the
  environment value \<open>b\<close> and \<open>try_empty\<close>: the generator yields \<open>a\<close> as single, \<open>b\<close>
  as wordlist entry and the empty string.
\<close>

theorem iter_passwords_priority_first_wins_witness:
  "iter_passwords id (Some [97]) (Some (Readable [97, 10, 98, 10, 97, 10]))
     (Some [(ENV_KEY, [98])]) True
     = (None, [([97], ''single''), ([98], ''dictionary''), ([], ''empty'')])"
proof -
  have "first_wins (priority_candidates id (Some [97]) (Some (Readable [97, 10, 98, 10, 97, 10]))
      (Some [(ENV_KEY, [98])]) True)
      = [([97], ''single''), ([98], ''dictionary''), ([], ''empty'')]"
    by (simp add: priority_candidates_def single_source_def wordlist_source_def
          environment_source_def environment_value_def empty_source_def text_defs)
  with iter_passwords_priority_first_wins[of id "Some [97]"
      "Some (Readable [97, 10, 98, 10, 97, 10])" "Some [(ENV_KEY, [98])]" True]
  show ?thesis by simp
qed

subsection \<open>The wordlist reader\<close>

lemma dictionary_loop_filter:
  "dictionary_loop nfkc ls =
     filter (\<lambda>p. py_strip p \<noteq> [] \<and> \<not> startswith_hash (py_lstrip p))
       (map (\<lambda>l. nfkc (rstrip_crlf l)) ls)"
  by (induction ls) (simp_all add: Let_def)












lemma py_strip_Nil: "py_strip s = [] \<longleftrightarrow> (\<forall>c \<in> set s. py_isspace c)"
proof
  assume "py_strip s = []"
  then have "\<forall>x \<in> set (dropWhile py_isspace s). py_isspace x"
    by (simp add: py_strip_def dropWhile_eq_Nil_conv)
  then have "dropWhile py_isspace s = []"
    using hd_dropWhile[of py_isspace s] hd_in_set[of "dropWhile py_isspace s"] by blast
  then show "\<forall>c \<in> set s. py_isspace c" by (simp add: dropWhile_eq_Nil_conv)
next
  assume "\<forall>c \<in> set s. py_isspace c"
  then have "dropWhile py_isspace s = []" by (simp add: dropWhile_eq_Nil_conv)
  then show "py_strip s = []" by (simp only: py_strip_def rev.simps dropWhile.simps)
qed

lemma dictionary_loop_nonblank:
  "p \<in> set (dictionary_loop nfkc ls) \<Longrightarrow> \<exists>c \<in> set p. \<not> py_isspace c"
  by (auto simp: dictionary_loop_filter py_strip_Nil)

text \<open>A pair with the label \<open>dictionary\<close> comes from the wordlist.\<close>

lemma emitted_dictionary:
  assumes "(p, ''dictionary'') \<in> set (snd (iter_passwords nfkc single dp env te))"
  shows "\<exists>decoded. dp = Some (Readable decoded) \<and> p \<in> set (iter_from_dictionary nfkc decoded)"
proof (cases "\<exists>e. dp = Some (Unreadable e)")
  case True
  then obtain e where "dp = Some (Unreadable e)" by blast
  with assms first_wins_subset[of "single_source single"] show ?thesis
    by (auto simp: iter_passwords_unreadable single_source_def split: option.splits)
next
  case False
  then have "\<forall>e. dp \<noteq> Some (Unreadable e)" by simp
  from iter_passwords_readable[OF this, of nfkc single env te] assms
  have "(p, ''dictionary'') \<in> set (priority_candidates nfkc single dp env te)"
    using first_wins_subset by fastforce
  then show ?thesis
    by (auto simp: priority_candidates_def single_source_def wordlist_source_def
          environment_source_def empty_source_def
          split: option.splits dict_file.splits if_splits)
qed

text \<open>
  Claim C10. A line whose text, after the terminator is removed and the text
  normalized, has only whitespace characters is skipped. So every candidate the wordlist
  reader yields has a character that is not whitespace, and so has every pair that
  \<open>iter_passwords\<close> yields with the label \<open>dictionary\<close>: a secret made of spaces alone
  never comes from the wordlist. A line that has a character that is not whitespace, and
  is not a comment, is yielded with all its spaces.
\<close>

theorem whitespace_only_lines_are_skipped:
  "((\<forall>c \<in> set (nfkc (rstrip_crlf line)). py_isspace c) \<longrightarrow>
      dictionary_loop nfkc (line # rest) = dictionary_loop nfkc rest) \<and>
   (\<forall>p \<in> set (iter_from_dictionary nfkc decoded). \<exists>c \<in> set p. \<not> py_isspace c) \<and>
   (\<forall>p. (p, ''dictionary'') \<in> set (snd (iter_passwords nfkc single dp env te)) \<longrightarrow>
        (\<exists>c \<in> set p. \<not> py_isspace c)) \<and>
   ((\<exists>c \<in> set (nfkc (rstrip_crlf line)). \<not> py_isspace c) \<longrightarrow>
      \<not> startswith_hash (py_lstrip (nfkc (rstrip_crlf line))) \<longrightarrow>
      dictionary_loop nfkc (line # rest) = nfkc (rstrip_crlf line) # dictionary_loop nfkc rest)"
proof (intro conjI)
  show "(\<forall>c \<in> set (nfkc (rstrip_crlf line)). py_isspace c) \<longrightarrow>
      dictionary_loop nfkc (line # rest) = dictionary_loop nfkc rest"
    by (simp add: py_strip_Nil[symmetric] Let_def)
  show "\<forall>p \<in> set (iter_from_dictionary nfkc decoded). \<exists>c \<in> set p. \<not> py_isspace c"
    using dictionary_loop_nonblank by (auto simp: iter_from_dictionary_def)
  show "\<forall>p. (p, ''dictionary'') \<in> set (snd (iter_passwords nfkc single dp env te)) \<longrightarrow>
        (\<exists>c \<in> set p. \<not> py_isspace c)"
    using emitted_dictionary dictionary_loop_nonblank
    by (fastforce simp: iter_from_dictionary_def)
  show "(\<exists>c \<in> set (nfkc (rstrip_crlf line)). \<not> py_isspace c) \<longrightarrow>
      \<not> startswith_hash (py_lstrip (nfkc (rstrip_crlf line))) \<longrightarrow>
      dictionary_loop nfkc (line # rest) = nfkc (rstrip_crlf line) # dictionary_loop nfkc rest"
    using py_strip_Nil[of "nfkc (rstrip_crlf line)"] by (auto simp: Let_def)
qed

text \<open>
  A line of two spaces is skipped; the line with spaces around \<open>a\<close> is yielded with
  them.
\<close>

theorem whitespace_only_lines_are_skipped_witness:
  "id (rstrip_crlf [32, 32, 10]) = [32, 32] \<and> py_isspace 32 \<and>
   dictionary_loop id [[32, 32, 10], [32, 97, 32, 10]] = dictionary_loop id [[32, 97, 32, 10]] \<and>
   \<not> py_isspace 97 \<and>
   \<not> startswith_hash (py_lstrip (id (rstrip_crlf [32, 97, 32, 10]))) \<and>
   dictionary_loop id [[32, 97, 32, 10]] = [[32, 97, 32]]"
proof -
  have a: "id (rstrip_crlf [32, 32, 10]) = [32, 32]" "py_isspace 32" "\<not> py_isspace 97"
    by (simp_all add: rstrip_crlf_def CR_def LF_def py_isspace_def)
  have b: "id (rstrip_crlf [32, 97, 32, 10]) = [32, 97, 32]"
    by (simp add: rstrip_crlf_def CR_def LF_def)
  have c: "\<not> startswith_hash (py_lstrip (id (rstrip_crlf [32, 97, 32, 10])))"
    by (simp add: text_defs)
  have h1: "\<forall>c \<in> set (id (rstrip_crlf [32, 32, 10])). py_isspace c"
    using a by simp
  have h2: "\<exists>c \<in> set (id (rstrip_crlf [32, 97, 32, 10])). \<not> py_isspace c"
    using a b by simp
  from whitespace_only_lines_are_skipped[of id "[32, 32, 10]" "[[32, 97, 32, 10]]"]
    whitespace_only_lines_are_skipped[of id "[32, 97, 32, 10]" "[]"] h1 h2 a b c
  show ?thesis by simp
qed

end
